theory Spec2Isabelle
  imports Complex_Main "HOL-Library.Multiset" "HOL-Library.AList" "HOL-Library.Log_Nat"
begin

section \<open>Portfolio accounting engine of \<^verbatim>\<open>src/portfolio.js\<close>\<close>

text \<open>
  The theory embeds the accounting core of the portfolio tracker: \<^verbatim>\<open>computeHoldings\<close>
  (lines 69-92), \<^verbatim>\<open>computeCash\<close> (lines 94-101), the per-holding valuation inside
  \<^verbatim>\<open>render\<close> (lines 115-134 and 144) and the quote fetcher (lines 40-66).

  Conventions of the embedding.
  \<^item> A JavaScript number is a value of \<^verbatim>\<open>jsnum\<close>: a finite number, one of the two
    infinities, or \<^verbatim>\<open>NaN\<close>. A finite number carries its exact value. Every arithmetic
    operation computes the exact result and rounds it to the nearest IEEE 754 double
    (binary64, ties to even, with subnormals and overflow to infinity), as the source's
    \<^verbatim>\<open>+\<close>, \<^verbatim>\<open>-\<close>, \<^verbatim>\<open>*\<close> and \<^verbatim>\<open>/\<close> do. The sign of a zero is not tracked: it
    only selects which infinity a division by zero yields, and no comparison or truth
    test of the source tells the two zeros apart.
  \<^item> \<^verbatim>\<open>new Date(t.date)\<close> is the integer time value (milliseconds) of a valid date.
  \<^item> A string is a list of bytes, and \<^verbatim>\<open>toUpperCase\<close> is modelled on ASCII letters
    only; symbols with other cased letters are outside the model.
  \<^item> A function that mutates its argument returns the argument's new contents next to
    its result.
\<close>

subsection \<open>JavaScript numbers\<close>

datatype jsnum = Fin real | PInf | NInf | NaN

fun js_neg :: "jsnum \<Rightarrow> jsnum" where
  "js_neg (Fin x) = Fin (- x)"
| "js_neg PInf = NInf"
| "js_neg NInf = PInf"
| "js_neg NaN = NaN"

text \<open>The power of two with an integer exponent.\<close>

definition pow2 :: "int \<Rightarrow> real" where
  "pow2 e = (if 0 \<le> e then 2 ^ nat e else 1 / 2 ^ nat (- e))"

text \<open>
  The binary exponent of a positive number: the \<open>e\<close> with \<open>2\<^sup>e \<le> x < 2\<^sup>e\<^sup>+\<^sup>1\<close>, computed from
  the bit length of the integer part, or of the reciprocal when \<open>x < 1\<close>.
\<close>

definition expo :: "real \<Rightarrow> int" where
  "expo x = (if 1 \<le> x then bitlen \<lfloor>x\<rfloor> - 1 else - bitlen (\<lceil>1 / x\<rceil> - 1))"

text \<open>Rounding to the nearest integer, a tie to the even neighbour.\<close>

definition round_even :: "real \<Rightarrow> int" where
  "round_even m =
     (let f = \<lfloor>m\<rfloor>; d = m - of_int f
      in if d < 1 / 2 then f else if 1 / 2 < d then f + 1 else if even f then f else f + 1)"

text \<open>
  Rounding of a positive number to binary64: the spacing of the doubles around \<open>x\<close> is
  \<open>2\<^sup>e\<^sup>-\<^sup>5\<^sup>2\<close> for the exponent \<open>e\<close> of \<open>x\<close>, and \<open>2\<^sup>-\<^sup>1\<^sup>0\<^sup>7\<^sup>4\<close> in the subnormal range; a result
  of \<open>2\<^sup>1\<^sup>0\<^sup>2\<^sup>4\<close> or more is an overflow.
\<close>

definition round_pos :: "real \<Rightarrow> jsnum" where
  "round_pos x =
     (let u = pow2 (max (expo x) (- 1022) - 52);
          r = of_int (round_even (x / u)) * u
      in if 2 ^ 1024 \<le> r then PInf else Fin r)"

definition round_double :: "real \<Rightarrow> jsnum" where
  "round_double x =
     (if x = 0 then Fin 0 else if 0 < x then round_pos x else js_neg (round_pos (- x)))"

text \<open>A real number is a double when rounding leaves it as it is.\<close>

definition is_double :: "real \<Rightarrow> bool" where
  "is_double x = (round_double x = Fin x)"

text \<open>The operators \<^verbatim>\<open>+\<close>, \<^verbatim>\<open>-\<close>, \<^verbatim>\<open>*\<close> and \<^verbatim>\<open>/\<close> on numbers.\<close>

fun js_add :: "jsnum \<Rightarrow> jsnum \<Rightarrow> jsnum" where
  "js_add (Fin x) (Fin y) = round_double (x + y)"
| "js_add NaN b = NaN"
| "js_add a NaN = NaN"
| "js_add PInf NInf = NaN"
| "js_add NInf PInf = NaN"
| "js_add PInf b = PInf"
| "js_add a PInf = PInf"
| "js_add NInf b = NInf"
| "js_add a NInf = NInf"

definition js_sub :: "jsnum \<Rightarrow> jsnum \<Rightarrow> jsnum" where
  "js_sub a b = js_add a (js_neg b)"

fun js_mul :: "jsnum \<Rightarrow> jsnum \<Rightarrow> jsnum" where
  "js_mul (Fin x) (Fin y) = round_double (x * y)"
| "js_mul NaN b = NaN"
| "js_mul a NaN = NaN"
| "js_mul (Fin x) PInf = (if x = 0 then NaN else if 0 < x then PInf else NInf)"
| "js_mul (Fin x) NInf = (if x = 0 then NaN else if 0 < x then NInf else PInf)"
| "js_mul PInf (Fin y) = (if y = 0 then NaN else if 0 < y then PInf else NInf)"
| "js_mul NInf (Fin y) = (if y = 0 then NaN else if 0 < y then NInf else PInf)"
| "js_mul PInf PInf = PInf"
| "js_mul PInf NInf = NInf"
| "js_mul NInf PInf = NInf"
| "js_mul NInf NInf = PInf"

fun js_div :: "jsnum \<Rightarrow> jsnum \<Rightarrow> jsnum" where
  "js_div (Fin x) (Fin y) =
     (if y = 0 then (if x = 0 then NaN else if 0 < x then PInf else NInf)
      else round_double (x / y))"
| "js_div NaN b = NaN"
| "js_div a NaN = NaN"
| "js_div (Fin x) PInf = Fin 0"
| "js_div (Fin x) NInf = Fin 0"
| "js_div PInf (Fin y) = (if 0 \<le> y then PInf else NInf)"
| "js_div NInf (Fin y) = (if 0 \<le> y then NInf else PInf)"
| "js_div PInf PInf = NaN"
| "js_div PInf NInf = NaN"
| "js_div NInf PInf = NaN"
| "js_div NInf NInf = NaN"

text \<open>
  The comparison \<^verbatim>\<open>a < b\<close> (\<^verbatim>\<open>a > b\<close> is \<^verbatim>\<open>b < a\<close>), and \<^verbatim>\<open>a <= b\<close>; both are false when
  an operand is \<^verbatim>\<open>NaN\<close>.
\<close>

fun js_lt :: "jsnum \<Rightarrow> jsnum \<Rightarrow> bool" where
  "js_lt (Fin x) (Fin y) = (x < y)"
| "js_lt NaN b = False"
| "js_lt a NaN = False"
| "js_lt NInf NInf = False"
| "js_lt NInf b = True"
| "js_lt PInf b = False"
| "js_lt (Fin x) PInf = True"
| "js_lt (Fin x) NInf = False"

fun js_le :: "jsnum \<Rightarrow> jsnum \<Rightarrow> bool" where
  "js_le (Fin x) (Fin y) = (x \<le> y)"
| "js_le NaN b = False"
| "js_le a NaN = False"
| "js_le NInf b = True"
| "js_le PInf PInf = True"
| "js_le PInf b = False"
| "js_le (Fin x) PInf = True"
| "js_le (Fin x) NInf = False"

text \<open>\<^verbatim>\<open>Math.abs\<close>, \<^verbatim>\<open>Math.min\<close>, \<^verbatim>\<open>isFinite\<close> and the truth value of a number.\<close>

fun js_abs :: "jsnum \<Rightarrow> jsnum" where
  "js_abs (Fin x) = Fin \<bar>x\<bar>"
| "js_abs PInf = PInf"
| "js_abs NInf = PInf"
| "js_abs NaN = NaN"

fun js_min :: "jsnum \<Rightarrow> jsnum \<Rightarrow> jsnum" where
  "js_min (Fin x) (Fin y) = Fin (min x y)"
| "js_min NaN b = NaN"
| "js_min a NaN = NaN"
| "js_min NInf b = NInf"
| "js_min a NInf = NInf"
| "js_min PInf b = b"
| "js_min a PInf = a"

fun isFinite :: "jsnum \<Rightarrow> bool" where
  "isFinite (Fin x) = True"
| "isFinite PInf = False"
| "isFinite NInf = False"
| "isFinite NaN = False"

fun truthy :: "jsnum \<Rightarrow> bool" where
  "truthy (Fin x) = (x \<noteq> 0)"
| "truthy PInf = True"
| "truthy NInf = True"
| "truthy NaN = False"

text \<open>The value of a finite number, for use in statements.\<close>

fun num_val :: "jsnum \<Rightarrow> real" where
  "num_val (Fin x) = x"
| "num_val PInf = 0"
| "num_val NInf = 0"
| "num_val NaN = 0"

text \<open>A finite number that is a double, and a finite number with an integer value.\<close>

fun finite_double :: "jsnum \<Rightarrow> bool" where
  "finite_double (Fin x) = is_double x"
| "finite_double PInf = False"
| "finite_double NInf = False"
| "finite_double NaN = False"

fun integral :: "jsnum \<Rightarrow> bool" where
  "integral (Fin x) = (of_int \<lfloor>x\<rfloor> = x)"
| "integral PInf = False"
| "integral NInf = False"
| "integral NaN = False"

text \<open>The literal \<^verbatim>\<open>1e-9\<close> of line 86: the double nearest to \<open>10\<^sup>-\<^sup>9\<close>.\<close>

definition tolerance :: jsnum where
  "tolerance = round_double (1 / 10 ^ 9)"

subsection \<open>Data model\<close>

text \<open>A stored transaction, as written by \<^verbatim>\<open>addTx\<close> (lines 209 and 232).\<close>

record transaction =
  tx_id :: nat
  symbol :: string
  side :: string
  qty :: jsnum
  price :: jsnum
  date :: int
  tx_notes :: "string option"

text \<open>
  The transactions the ledger is meant for: quantity and price are finite doubles, the
  quantity is positive, the price is not negative, and the side is one of the two.
\<close>

definition well_formed :: "transaction \<Rightarrow> bool" where
  "well_formed t =
     (finite_double (qty t) \<and> finite_double (price t) \<and> 0 < num_val (qty t)
      \<and> 0 \<le> num_val (price t) \<and> (side t = ''BUY'' \<or> side t = ''SELL''))"

text \<open>The exact amount of a trade, and the amount signed as the cash ledger signs it.\<close>

definition amount :: "transaction \<Rightarrow> real" where
  "amount t = num_val (qty t) * num_val (price t)"

definition signed_amount :: "transaction \<Rightarrow> real" where
  "signed_amount t = (if side t = ''BUY'' then - 1 else 1) * amount t"

text \<open>
  A running sum that never rounds: starting from \<open>a\<close>, every partial sum of the list is
  a double.
\<close>

fun exact_sums :: "real \<Rightarrow> real list \<Rightarrow> bool" where
  "exact_sums a [] = True"
| "exact_sums a (x # xs) = (is_double (a + x) \<and> exact_sums (a + x) xs)"

text \<open>The accumulator \<^verbatim>\<open>{qty, cost}\<close> kept per symbol in \<^verbatim>\<open>lots\<close> (line 74).\<close>

record lot =
  lot_qty :: jsnum
  lot_cost :: jsnum

text \<open>
  The object \<^verbatim>\<open>lots\<close>: its own properties in creation order. Every key is an
  upper-cased symbol, and no property of \<^verbatim>\<open>Object.prototype\<close> has a name without a
  lower-case letter, so a lookup only ever sees own properties.
\<close>

type_synonym lots = "(string \<times> lot) list"

text \<open>An element \<^verbatim>\<open>{symbol, qty, avgCost}\<close> of the result (line 90).\<close>

record holding =
  h_symbol :: string
  h_qty :: jsnum
  avgCost :: jsnum

subsection \<open>Strings and property order\<close>

definition upper_char :: "char \<Rightarrow> char" where
  "upper_char c =
     (let n = (of_char c :: nat) in if 97 \<le> n \<and> n \<le> 122 then char_of (n - 32) else c)"

definition toUpperCase :: "string \<Rightarrow> string" where
  "toUpperCase s = map upper_char s"

definition is_digit :: "char \<Rightarrow> bool" where
  "is_digit c = (c \<in> set ''0123456789'')"

definition numeric_value :: "string \<Rightarrow> nat" where
  "numeric_value s = foldl (\<lambda>n c. 10 * n + (of_char c - 48)) 0 s"

text \<open>
  An array index in the sense of ECMAScript: a canonical numeric string whose value is
  below \<open>2\<^sup>3\<^sup>2 - 1\<close>.
\<close>

definition array_index :: "string \<Rightarrow> nat option" where
  "array_index s =
     (if s \<noteq> [] \<and> list_all is_digit s \<and> (s = ''0'' \<or> hd s \<noteq> CHR ''0'')
         \<and> numeric_value s < 2 ^ 32 - 1
      then Some (numeric_value s) else None)"

definition index_key :: "string \<times> 'a \<Rightarrow> nat" where
  "index_key e = (case array_index (fst e) of Some n \<Rightarrow> n | None \<Rightarrow> 0)"

text \<open>
  \<^verbatim>\<open>Object.entries\<close>: the array-index keys in ascending numeric order, then the other
  string keys in creation order.
\<close>

definition own_entries :: "(string \<times> 'a) list \<Rightarrow> (string \<times> 'a) list" where
  "own_entries kvs =
     sort_key index_key (filter (\<lambda>e. array_index (fst e) \<noteq> None) kvs)
     @ filter (\<lambda>e. array_index (fst e) = None) kvs"

subsection \<open>Ledger replay: \<^verbatim>\<open>computeHoldings\<close>\<close>

text \<open>
  Lines 75-86 on the accumulator of the transaction's symbol: the quantity is updated
  first, the cost next (with the quantity held before), and an accumulator whose
  quantity is within the tolerance of zero is reset. A \<^verbatim>\<open>side\<close> other than \<^verbatim>\<open>'BUY'\<close>
  takes the selling branch, as in the source.
\<close>

definition apply_tx :: "lot \<Rightarrow> transaction \<Rightarrow> lot" where
  "apply_tx l0 t =
     (let sign = (if side t = ''BUY'' then Fin 1 else Fin (- 1));
          qtyBefore = lot_qty l0;
          l1 = l0\<lparr>lot_qty := js_add (lot_qty l0) (js_mul sign (qty t))\<rparr>;
          l2 = (if side t = ''BUY''
                then l1\<lparr>lot_cost := js_add (lot_cost l1) (js_mul (qty t) (price t))\<rparr>
                else (let avg = (if js_lt (Fin 0) qtyBefore
                                 then js_div (lot_cost l1) qtyBefore else Fin 0)
                      in l1\<lparr>lot_cost :=
                            js_sub (lot_cost l1) (js_mul (js_min qtyBefore (qty t)) avg)\<rparr>))
      in if js_lt (js_abs (lot_qty l2)) tolerance
         then l2\<lparr>lot_qty := Fin 0, lot_cost := Fin 0\<rparr> else l2)"

text \<open>
  One iteration of the loop of lines 72-87: the accumulator of the upper-cased symbol is
  created if absent (line 74) and updated in place.
\<close>

definition replay_step :: "lots \<Rightarrow> transaction \<Rightarrow> lots" where
  "replay_step lots t =
     (let s = toUpperCase (symbol t);
          l0 = (case map_of lots s of Some l \<Rightarrow> l
                | None \<Rightarrow> \<lparr>lot_qty = Fin 0, lot_cost = Fin 0\<rparr>)
      in AList.update s (apply_tx l0 t) lots)"

text \<open>The whole loop over an array, from the empty object.\<close>

definition replay :: "transaction list \<Rightarrow> lots" where
  "replay txs = foldl replay_step [] txs"

text \<open>
  The object \<^verbatim>\<open>lots\<close> when the loop ends: line 71 sorts the array by date (the sort
  is stable), the loop then runs over the sorted array.
\<close>

definition final_lots :: "transaction list \<Rightarrow> lots" where
  "final_lots transactions = replay (sort_key date transactions)"

text \<open>Lines 88-90: the filter and the map over the entries.\<close>

definition to_holding :: "string \<times> lot \<Rightarrow> holding" where
  "to_holding e =
     \<lparr>h_symbol = fst e, h_qty = lot_qty (snd e),
      avgCost = (if truthy (lot_qty (snd e)) then js_div (lot_cost (snd e)) (lot_qty (snd e))
                 else Fin 0)\<rparr>"

definition emit :: "lots \<Rightarrow> holding list" where
  "emit lots = map to_holding (filter (\<lambda>e. js_lt (Fin 0) (lot_qty (snd e))) (own_entries lots))"

text \<open>
  \<^verbatim>\<open>computeHoldings\<close>. \<^verbatim>\<open>Array.prototype.sort\<close> sorts its array in place, so the
  function returns the holdings together with the contents of the caller's array after
  the call.
\<close>

definition computeHoldings :: "transaction list \<Rightarrow> holding list \<times> transaction list" where
  "computeHoldings transactions =
     (emit (final_lots transactions), sort_key date transactions)"

subsection \<open>Cash ledger: \<^verbatim>\<open>computeCash\<close>\<close>

definition computeCash :: "transaction list \<Rightarrow> jsnum \<Rightarrow> jsnum" where
  "computeCash transactions starting =
     foldl (\<lambda>cash t. js_add cash
              (js_mul (if side t = ''BUY'' then Fin (- 1) else Fin 1)
                 (js_mul (qty t) (price t))))
       starting transactions"

text \<open>The call without the second argument uses the default of line 94.\<close>

definition computeCash_default :: "transaction list \<Rightarrow> jsnum" where
  "computeCash_default transactions = computeCash transactions (Fin 100000)"

subsection \<open>Valuation: the loop of \<^verbatim>\<open>render\<close>\<close>

text \<open>A quote \<^verbatim>\<open>{price, prevClose}\<close>; \<^verbatim>\<open>prevClose\<close> is \<^verbatim>\<open>null\<close> when it did not parse.\<close>

record quote =
  q_price :: jsnum
  prevClose :: "jsnum option"

type_synonym quotes = "string \<rightharpoonup> quote"

text \<open>
  What one iteration of the loop of lines 124-148 computes for a holding.
  \<open>r_reported\<close> is the number \<^verbatim>\<open>isFinite(plPct) ? plPct : 0\<close> of line 144, before
  \<^verbatim>\<open>toFixed(2)\<close> formats it.
\<close>

record row =
  r_last :: jsnum
  r_prev :: jsnum
  r_value :: jsnum
  r_pl :: jsnum
  r_plPct :: jsnum
  r_reported :: jsnum

definition render_row :: "quotes \<Rightarrow> holding \<Rightarrow> row" where
  "render_row quotes h =
     (let q = quotes (h_symbol h);
          last = (case q of Some qu \<Rightarrow> q_price qu | None \<Rightarrow> avgCost h);
          prev = (case q of
                    Some qu \<Rightarrow> (case prevClose qu of Some pc \<Rightarrow> pc | None \<Rightarrow> last)
                  | None \<Rightarrow> last);
          value = js_mul (h_qty h) last;
          pl = js_sub value (js_mul (h_qty h) (avgCost h));
          plPct = js_mul (js_div pl (js_mul (h_qty h) (avgCost h))) (Fin 100)
      in \<lparr>r_last = last, r_prev = prev, r_value = value, r_pl = pl, r_plPct = plPct,
          r_reported = (if isFinite plPct then plPct else Fin 0)\<rparr>)"

text \<open>The three running totals of line 123, updated at lines 129-131.\<close>

record totals =
  totalValue :: jsnum
  totalCost :: jsnum
  dayChangeValue :: jsnum

definition add_row :: "quotes \<Rightarrow> totals \<Rightarrow> holding \<Rightarrow> totals" where
  "add_row quotes acc h =
     (let r = render_row quotes h
      in \<lparr>totalValue = js_add (totalValue acc) (r_value r),
          totalCost = js_add (totalCost acc) (js_mul (h_qty h) (avgCost h)),
          dayChangeValue =
            js_add (dayChangeValue acc) (js_mul (h_qty h) (js_sub (r_last r) (r_prev r)))\<rparr>)"

definition render_totals :: "quotes \<Rightarrow> holding list \<Rightarrow> totals" where
  "render_totals quotes holdings =
     foldl (add_row quotes)
       \<lparr>totalValue = Fin 0, totalCost = Fin 0, dayChangeValue = Fin 0\<rparr> holdings"

subsection \<open>Quote fetcher\<close>

text \<open>The settings object returned by \<^verbatim>\<open>Settings.get\<close> (lines 32-35).\<close>

record settings =
  provider :: string
  apiKey :: string
  refreshSec :: nat
  startingCash :: jsnum

text \<open>
  What the provider answers to one request: the \<^verbatim>\<open>fetch\<close> is rejected, the status is
  not ok, the body is not JSON, or the body parses and \<^verbatim>\<open>parseFloat\<close> yields the two
  fields (\<^verbatim>\<open>NaN\<close> for a missing one). The network is a function from the symbol and
  the key of the request to the answer.
\<close>

datatype response =
  FetchRejected | NotOk | BadJson | GlobalQuote jsnum jsnum

type_synonym network = "string \<Rightarrow> string \<Rightarrow> response"

text \<open>The observable effects of the fetcher, in order.\<close>

datatype event = Fetch string string | Warn string | Sleep nat

fun is_Fetch :: "event \<Rightarrow> bool" where
  "is_Fetch (Fetch s k) = True"
| "is_Fetch (Warn s) = False"
| "is_Fetch (Sleep n) = False"

text \<open>
  \<^verbatim>\<open>fetchQuoteAlphaVantage\<close> (lines 40-50): it always issues the request; a thrown error
  is \<open>Inl\<close>. The test \<^verbatim>\<open>!price\<close> holds for \<^verbatim>\<open>NaN\<close> and for zero.
\<close>

definition fetchQuoteAlphaVantage ::
  "network \<Rightarrow> string \<Rightarrow> string \<Rightarrow> event list \<times> (string + quote)" where
  "fetchQuoteAlphaVantage net symb key =
     ([Fetch symb key],
      (case net symb key of
         FetchRejected \<Rightarrow> Inl ''Failed to fetch''
       | NotOk \<Rightarrow> Inl ''Network error''
       | BadJson \<Rightarrow> Inl ''Unexpected token''
       | GlobalQuote p pc \<Rightarrow>
           if \<not> truthy p then Inl (''No price for '' @ symb)
           else Inr \<lparr>q_price = p, prevClose = (if pc = NaN then None else Some pc)\<rparr>))"

text \<open>The loop of lines 57-63 over the remaining symbols.\<close>

fun fetch_loop ::
  "network \<Rightarrow> string \<Rightarrow> string list \<Rightarrow> quotes \<times> event list \<Rightarrow> quotes \<times> event list" where
  "fetch_loop net key [] st = st"
| "fetch_loop net key (s # rest) (out, tr) =
     (let (evs, res) = fetchQuoteAlphaVantage net s key;
          out1 = (case res of Inr q \<Rightarrow> out(s \<mapsto> q) | Inl err \<Rightarrow> out);
          tr1 = (case res of Inr q \<Rightarrow> tr @ evs | Inl err \<Rightarrow> tr @ evs @ [Warn s]);
          tr2 = (if rest \<noteq> [] then tr1 @ [Sleep 13000] else tr1)
      in fetch_loop net key rest (out1, tr2))"

text \<open>\<^verbatim>\<open>fetchQuotes\<close> (lines 52-66): the quotes and the effects it had.\<close>

definition fetchQuotes :: "settings \<Rightarrow> network \<Rightarrow> string list \<Rightarrow> quotes \<times> event list" where
  "fetchQuotes st net symbols =
     (if provider st = ''alphavantage''
      then fetch_loop net (apiKey st) symbols (Map.empty, [])
      else (Map.empty, []))"

text \<open>
  Lines 115-118 of \<^verbatim>\<open>render\<close>: the quotes stay empty unless a key is set and there is a
  symbol to price.
\<close>

definition render_quotes :: "settings \<Rightarrow> network \<Rightarrow> string list \<Rightarrow> quotes \<times> event list" where
  "render_quotes st net symbols =
     (if apiKey st \<noteq> [] \<and> symbols \<noteq> [] then fetchQuotes st net symbols
      else (Map.empty, []))"

text \<open>
  A provider for the examples: without a key it answers with a body that has no quote,
  with a key it prices every symbol at 100 (previous close 99).
\<close>

definition keyed_provider :: network where
  "keyed_provider symb key =
     (if key = [] then GlobalQuote NaN NaN else GlobalQuote (Fin 100) (Fin 99))"

text \<open>
  A JavaScript number as a value that is a double: an infinity, \<^verbatim>\<open>NaN\<close>, or a finite
  number that rounding leaves unchanged.
\<close>

fun js_double :: "jsnum \<Rightarrow> bool" where
  "js_double (Fin x) = is_double x"
| "js_double PInf = True"
| "js_double NInf = True"
| "js_double NaN = True"


text \<open>
  A well-formed purchase of the symbol \<open>S\<close> whose amount, quantity times price, is a
  double, so that the product of line 80 does not round.
\<close>

definition exact_buy :: "string \<Rightarrow> transaction \<Rightarrow> bool" where
  "exact_buy S t =
     (well_formed t \<and> side t = ''BUY'' \<and> toUpperCase (symbol t) = S \<and> is_double (amount t))"

section \<open>Auxiliary facts\<close>

subsection \<open>Rounding\<close>

lemma pow2_pos: "0 < pow2 e"
  by (simp add: pow2_def)

lemma round_even_of_int: "round_even (of_int k) = k"
  by (simp add: round_even_def)

lemma round_even_nonneg: "0 \<le> m \<Longrightarrow> 0 \<le> round_even m"
  by (simp add: round_even_def Let_def)

lemma round_pos_nonneg: "0 < x \<Longrightarrow> js_le (Fin 0) (round_pos x)"
proof -
  assume "0 < x"
  then have "0 \<le> x / pow2 (max (expo x) (- 1022) - 52)"
    using pow2_pos [of "max (expo x) (- 1022) - 52"] by simp
  then have "0 \<le> round_even (x / pow2 (max (expo x) (- 1022) - 52))"
    by (rule round_even_nonneg)
  then have "0 \<le> real_of_int (round_even (x / pow2 (max (expo x) (- 1022) - 52)))
      * pow2 (max (expo x) (- 1022) - 52)"
    using pow2_pos [of "max (expo x) (- 1022) - 52"] by simp
  then show ?thesis by (simp add: round_pos_def Let_def)
qed

lemma round_double_0 [simp]: "round_double 0 = Fin 0"
  by (simp add: round_double_def)

lemma js_neg_neg [simp]: "js_neg (js_neg a) = a"
  by (cases a) simp_all

lemma round_double_minus: "round_double (- x) = js_neg (round_double x)"
  by (simp add: round_double_def)

lemma js_le_neg: "js_le (Fin 0) a \<Longrightarrow> js_le (js_neg a) (Fin 0)"
  by (cases a) simp_all

lemma round_double_nonneg: "0 \<le> x \<Longrightarrow> js_le (Fin 0) (round_double x)"
  by (cases "x = 0") (simp_all add: round_double_def round_pos_nonneg)

lemma round_double_nonpos: "x \<le> 0 \<Longrightarrow> js_le (round_double x) (Fin 0)"
  using round_double_nonneg [of "- x"] js_le_neg [of "round_double (- x)"]
  by (simp add: round_double_minus)

lemma is_double_0 [simp]: "is_double 0"
  by (simp add: is_double_def)

lemma is_double_minus: "is_double x \<Longrightarrow> is_double (- x)"
  by (simp add: is_double_def round_double_minus)

text \<open>
The rules that evaluate a rounding of a numeral.
\<close>

lemmas round_eval =
  round_double_def round_pos_def expo_def pow2_def round_even_def compute_bitlen Let_def

text \<open>
  Some roundings, as a check of the model against known doubles: \<^verbatim>\<open>0.1\<close>, the tie
  \<open>10\<^sup>1\<^sup>6 + 1\<close>, the threshold of overflow, and half of the least subnormal.
\<close>

lemma round_double_examples:
  "round_double (1 / 10) = Fin (3602879701896397 / 2 ^ 55)"
  "round_double (10 ^ 16 + 1) = Fin (10 ^ 16)"
  "round_double (2 ^ 1024 - 2 ^ 970) = PInf"
  "round_double (2 ^ 1024 - 2 ^ 970 - 1) = Fin (2 ^ 1024 - 2 ^ 971)"
  "round_double (1 / 2 ^ 1075) = Fin 0"
  "round_double (3 / 2 ^ 1075) = Fin (1 / 2 ^ 1073)"
  "round_double (- (1 / 3)) = Fin (- (6004799503160661 / 2 ^ 54))"
  by (simp_all add: round_eval)

lemma tolerance_val: "tolerance = Fin (4835703278458517 / 2 ^ 82)"
  by (simp add: tolerance_def round_eval)

lemma tolerance_pos: "js_lt (Fin 0) tolerance"
  by (simp add: tolerance_val)

lemma js_lt_tolerance: "js_lt (Fin x) tolerance = (x < num_val tolerance)"
  by (simp add: tolerance_val)

lemma tolerance_num_pos: "0 < num_val tolerance"
  by (simp add: tolerance_val)

subsection \<open>Integers up to \<open>2\<^sup>5\<^sup>3\<close> are doubles\<close>

lemma expo_of_int: "1 \<le> n \<Longrightarrow> expo (of_int n) = bitlen n - 1"
  by (simp add: expo_def)

lemma round_pos_exact:
  assumes "x = of_int k * pow2 (max (expo x) (- 1022) - 52)" and "x < 2 ^ 1024"
  shows "round_pos x = Fin x"
proof -
  let ?u = "pow2 (max (expo x) (- 1022) - 52)"
  have "x / ?u = of_int k" using assms(1) pow2_pos [of "max (expo x) (- 1022) - 52"]
    by (metis nonzero_mult_div_cancel_right less_irrefl)
  then have "of_int (round_even (x / ?u)) * ?u = x"
    using assms(1) by (simp add: round_even_of_int)
  then show ?thesis using assms(2) by (simp add: round_pos_def Let_def)
qed

lemma is_double_of_int_pos:
  assumes "0 < n" and "n \<le> 2 ^ 53"
  shows "is_double (of_int n)"
proof -
  let ?e = "bitlen n - 1"
  have e: "expo (of_int n) = ?e" using assms(1) by (simp add: expo_of_int)
  have bounds: "2 ^ nat ?e \<le> n" "n < 2 ^ nat (bitlen n)" using bitlen_bounds [OF assms(1)] by auto
  have e0: "0 \<le> ?e" using assms(1) by (simp add: bitlen_alt_def)
  have "(2::int) ^ nat ?e \<le> 2 ^ 53" using bounds(1) assms(2) by linarith
  then have "nat ?e \<le> 53" by (rule power_le_imp_le_exp [rotated]) simp
  then have e53: "?e \<le> 53" by linarith
  have "\<exists>k. real_of_int n = of_int k * pow2 (?e - 52)"
  proof (cases "?e \<le> 52")
    case True
    then have "pow2 (?e - 52) = 1 / 2 ^ nat (52 - ?e)"
      by (cases "?e = 52") (simp_all add: pow2_def)
    then have "real_of_int n = of_int (n * 2 ^ nat (52 - ?e)) * pow2 (?e - 52)" by simp
    then show ?thesis by blast
  next
    case False
    with e53 have e: "?e = 53" by linarith
    then have "bitlen n = 54" by simp
    with bounds(1) e have "2 ^ 53 \<le> n" by simp
    with assms(2) have n: "n = 2 ^ 53" by simp
    have "pow2 (?e - 52) = 2" using e by (simp add: pow2_def)
    then have "real_of_int n = of_int (2 ^ 52) * pow2 (?e - 52)" using n by simp
    then show ?thesis by blast
  qed
  then obtain k where k: "real_of_int n = of_int k * pow2 (?e - 52)" by blast
  have m: "max (expo (real_of_int n)) (- 1022) - 52 = ?e - 52" using e e0 by simp
  have "real_of_int n \<le> 2 ^ 53" using assms(2) by (metis of_int_le_iff of_int_numeral of_int_power)
  also have "\<dots> < (2::real) ^ 1024" by simp
  finally have lt: "real_of_int n < 2 ^ 1024" .
  have k': "real_of_int n = of_int k * pow2 (max (expo (real_of_int n)) (- 1022) - 52)"
    by (subst m) (rule k)
  have "round_pos (of_int n) = Fin (of_int n)"
    by (rule round_pos_exact [OF k' lt])
  then show ?thesis using assms(1) by (simp add: is_double_def round_double_def)
qed

lemma is_double_of_int:
  assumes "\<bar>n\<bar> \<le> 2 ^ 53"
  shows "is_double (of_int n)"
proof (cases "n = 0")
  case True
  then show ?thesis by simp
next
  case False
  show ?thesis
  proof (cases "0 < n")
    case True
    with assms show ?thesis by (simp add: is_double_of_int_pos)
  next
    case neg: False
    with False assms have "0 < - n" "- n \<le> 2 ^ 53" by simp_all
    then have "is_double (of_int (- n))" by (rule is_double_of_int_pos)
    then have "is_double (- of_int (- n))" by (rule is_double_minus)
    then show ?thesis by simp
  qed
qed

lemma round_double_of_int:
  assumes "\<bar>real_of_int n\<bar> \<le> 2 ^ 53"
  shows "round_double (of_int n) = Fin (of_int n)"
proof -
  have "real_of_int \<bar>n\<bar> \<le> real_of_int (2 ^ 53)" using assms by simp
  then have "\<bar>n\<bar> \<le> 2 ^ 53" by (simp only: of_int_le_iff)
  then show ?thesis using is_double_of_int [of n] by (simp add: is_double_def)
qed

lemma round_double_numeral [simp]:
  "numeral k \<le> (2 ^ 53 :: int) \<Longrightarrow> round_double (numeral k) = Fin (numeral k)"
  using is_double_of_int [of "numeral k"] by (simp add: is_double_def)

lemma round_double_neg_numeral [simp]:
  "numeral k \<le> (2 ^ 53 :: int) \<Longrightarrow> round_double (- numeral k) = Fin (- numeral k)"
  using is_double_of_int [of "- numeral k"] by (simp add: is_double_def)

lemma round_double_1 [simp]: "round_double 1 = Fin 1"
  using is_double_of_int [of 1] by (simp add: is_double_def)

lemma integralE:
  assumes "integral a"
  obtains n where "a = Fin (of_int n)"
  using assms by (cases a) (auto intro: that [of "\<lfloor>_\<rfloor>"] simp: eq_commute)

subsection \<open>The rounding is to a nearest double\<close>

text \<open>
  The exponent is the one its definition promises, the result of a rounding is within
  half a unit in the last place of the number rounded, and it is a double.
\<close>

lemma pow2_nonneg_exp: "0 \<le> e \<Longrightarrow> pow2 e = 2 ^ nat e"
  by (simp add: pow2_def)

lemma pow2_neg_exp: "e \<le> 0 \<Longrightarrow> pow2 e = 1 / 2 ^ nat (- e)"
  by (cases "e = 0") (simp_all add: pow2_def)

lemma expo_bounds:
  assumes "0 < x"
  shows "pow2 (expo x) \<le> x \<and> x < pow2 (expo x + 1)"
proof (cases "1 \<le> x")
  case True
  let ?n = "\<lfloor>x\<rfloor>"
  have n: "0 < ?n" using True by simp
  have e: "expo x = bitlen ?n - 1" using True by (simp add: expo_def)
  have e0: "0 \<le> bitlen ?n - 1" using n by (simp add: bitlen_alt_def)
  from bitlen_bounds [OF n] have lo: "2 ^ nat (bitlen ?n - 1) \<le> ?n"
    and hi: "?n < 2 ^ nat (bitlen ?n)" by simp_all
  have "real_of_int (2 ^ nat (bitlen ?n - 1)) \<le> real_of_int ?n" using lo by (simp only: of_int_le_iff)
  also have "\<dots> \<le> x" by simp
  finally have low: "pow2 (expo x) \<le> x" using e0 by (simp add: e pow2_nonneg_exp)
  have "?n + 1 \<le> 2 ^ nat (bitlen ?n)" using hi by simp
  then have "real_of_int (?n + 1) \<le> real_of_int (2 ^ nat (bitlen ?n))" by (simp only: of_int_le_iff)
  moreover have "x < real_of_int (?n + 1)" by simp
  ultimately have "x < real_of_int (2 ^ nat (bitlen ?n))" by linarith
  then have "x < pow2 (expo x + 1)" using e0 by (simp add: e pow2_nonneg_exp)
  with low show ?thesis by simp
next
  case False
  let ?y = "1 / x"
  let ?c = "\<lceil>?y\<rceil>"
  let ?k = "bitlen (?c - 1)"
  have x1: "x < 1" using False by simp
  have y: "1 < ?y" using assms x1 by simp
  then have c: "2 \<le> ?c" by linarith
  then have c1: "0 < ?c - 1" by simp
  have e: "expo x = - ?k" using False by (simp add: expo_def)
  have k1: "1 \<le> ?k" using c1 by (simp add: bitlen_alt_def)
  from bitlen_bounds [OF c1] have lo: "2 ^ nat (?k - 1) \<le> ?c - 1"
    and hi: "?c - 1 < 2 ^ nat ?k" by simp_all
  have "?c \<le> 2 ^ nat ?k" using hi by simp
  then have "real_of_int ?c \<le> real_of_int (2 ^ nat ?k)" by (simp only: of_int_le_iff)
  moreover have "?y \<le> real_of_int ?c" by simp
  ultimately have "?y \<le> real_of_int (2 ^ nat ?k)" by linarith
  then have "?y \<le> 2 ^ nat ?k" by simp
  then have "1 / 2 ^ nat ?k \<le> x" using assms by (simp add: field_simps)
  then have low: "pow2 (expo x) \<le> x" using k1 by (simp add: e pow2_neg_exp)
  have "real_of_int (2 ^ nat (?k - 1)) \<le> real_of_int (?c - 1)" using lo by (simp only: of_int_le_iff)
  moreover have "real_of_int (?c - 1) < ?y" by linarith
  ultimately have "real_of_int (2 ^ nat (?k - 1)) < ?y" by linarith
  then have "2 ^ nat (?k - 1) < ?y" by simp
  then have "x < 1 / 2 ^ nat (?k - 1)" using assms by (simp add: field_simps)
  moreover have "pow2 (- ?k + 1) = 1 / 2 ^ nat (?k - 1)"
    using k1 pow2_neg_exp [of "- ?k + 1"] by simp
  ultimately have "x < pow2 (expo x + 1)" by (simp add: e)
  with low show ?thesis by simp
qed

lemma round_even_error: "\<bar>real_of_int (round_even m) - m\<bar> \<le> 1 / 2"
proof -
  have "real_of_int \<lfloor>m\<rfloor> \<le> m" "m < real_of_int \<lfloor>m\<rfloor> + 1" by linarith+
  then show ?thesis by (auto simp: round_even_def Let_def)
qed

lemma round_pos_error:
  assumes "0 < x" and "round_pos x = Fin r"
  shows "\<bar>r - x\<bar> \<le> pow2 (max (expo x) (- 1022) - 52) / 2"
proof -
  let ?u = "pow2 (max (expo x) (- 1022) - 52)"
  have u: "0 < ?u" by (rule pow2_pos)
  have r: "r = real_of_int (round_even (x / ?u)) * ?u"
    using assms(2) by (simp add: round_pos_def Let_def split: if_splits)
  have "r - x = (real_of_int (round_even (x / ?u)) - x / ?u) * ?u"
    using u by (simp add: r field_simps)
  then have "\<bar>r - x\<bar> = \<bar>real_of_int (round_even (x / ?u)) - x / ?u\<bar> * ?u"
    using u by (simp add: abs_mult)
  also have "\<dots> \<le> 1 / 2 * ?u"
    using round_even_error [of "x / ?u"] u by (intro mult_right_mono) simp_all
  finally show ?thesis by simp
qed

lemma pow2_mono:
  assumes "a \<le> b"
  shows "pow2 a \<le> pow2 b"
proof (cases "0 \<le> a")
  case True
  with assms have "nat a \<le> nat b" by simp
  then have "(2::real) ^ nat a \<le> 2 ^ nat b" by (intro power_increasing) simp_all
  with True assms show ?thesis by (simp add: pow2_def)
next
  case False
  show ?thesis
  proof (cases "0 \<le> b")
    case True
    have "1 / (2::real) ^ nat (- a) \<le> 1" by simp
    also have "\<dots> \<le> 2 ^ nat b" by simp
    finally show ?thesis using False True by (simp add: pow2_def)
  next
    case neg: False
    with assms have "nat (- b) \<le> nat (- a)" by simp
    then have "(2::real) ^ nat (- b) \<le> 2 ^ nat (- a)" by (intro power_increasing) simp_all
    then have "1 / (2::real) ^ nat (- a) \<le> 1 / 2 ^ nat (- b)"
      by (intro divide_left_mono) simp_all
    with False neg show ?thesis by (simp add: pow2_def)
  qed
qed

lemma expo_le:
  assumes "0 < r" and "r < pow2 (a + 1)"
  shows "expo r \<le> a"
proof (rule ccontr)
  assume "\<not> expo r \<le> a"
  then have "a + 1 \<le> expo r" by simp
  then have "pow2 (a + 1) \<le> pow2 (expo r)" by (rule pow2_mono)
  also have "\<dots> \<le> r" using expo_bounds [OF assms(1)] by simp
  finally show False using assms(2) by simp
qed

lemma expo_ge:
  assumes "0 < r" and "pow2 a \<le> r"
  shows "a \<le> expo r"
proof (rule ccontr)
  assume "\<not> a \<le> expo r"
  then have "expo r + 1 \<le> a" by simp
  then have "pow2 (expo r + 1) \<le> pow2 a" by (rule pow2_mono)
  moreover have "r < pow2 (expo r + 1)" using expo_bounds [OF assms(1)] by simp
  ultimately show False using assms(2) by simp
qed

lemma round_even_le: "m \<le> real_of_int n \<Longrightarrow> round_even m \<le> n"
proof -
  assume a: "m \<le> real_of_int n"
  have fl: "\<lfloor>m\<rfloor> \<le> n" using a by (simp add: floor_le_iff)
  show ?thesis
  proof (cases "\<lfloor>m\<rfloor> = n")
    case True
    then have "m - real_of_int \<lfloor>m\<rfloor> \<le> 0" using a by simp
    then have "m - real_of_int \<lfloor>m\<rfloor> < 1 / 2" by linarith
    then show ?thesis using True by (simp add: round_even_def Let_def)
  next
    case False
    with fl have "\<lfloor>m\<rfloor> + 1 \<le> n" by simp
    then show ?thesis by (auto simp: round_even_def Let_def)
  qed
qed

lemma pow2_Suc: "pow2 (a + 1) = 2 * pow2 a"
proof (cases "0 \<le> a")
  case True
  then have "nat (a + 1) = Suc (nat a)" by simp
  with True show ?thesis by (simp add: pow2_def)
next
  case False
  then have "nat (- a) = Suc (nat (- (a + 1)))" by simp
  then have "(2::real) ^ nat (- a) = 2 * 2 ^ nat (- (a + 1))" by simp
  then show ?thesis using False pow2_neg_exp [of "a + 1"] by (simp add: pow2_def)
qed

lemma pow2_shift: "pow2 (a + int n) = pow2 a * 2 ^ n"
proof (induction n)
  case 0
  then show ?case by simp
next
  case (Suc n)
  have "a + int (Suc n) = (a + int n) + 1" by simp
  then have "pow2 (a + int (Suc n)) = pow2 ((a + int n) + 1)" by (rule arg_cong)
  also have "\<dots> = 2 * pow2 (a + int n)" by (rule pow2_Suc)
  finally show ?case by (simp add: Suc.IH)
qed

lemma round_pos_is_double:
  assumes "0 < x" and "round_pos x = Fin r"
  shows "is_double r"
proof -
  define e where "e = max (expo x) (- 1022)"
  define u where "u = pow2 (e - 52)"
  define k where "k = round_even (x / u)"
  have u: "0 < u" unfolding u_def by (rule pow2_pos)
  have r: "r = real_of_int k * u" and fin: "r < 2 ^ 1024"
    using assms(2) by (simp_all add: round_pos_def Let_def e_def u_def k_def split: if_splits)
  have k0: "0 \<le> k" unfolding k_def using assms(1) u by (intro round_even_nonneg) simp
  have "e + 1 = (e - 52) + int 53" by simp
  then have "pow2 (e + 1) = pow2 ((e - 52) + int 53)" by (rule arg_cong)
  then have top: "pow2 (e + 1) = 2 ^ 53 * u"
    by (simp only: pow2_shift u_def mult.commute)
  have "x < pow2 (expo x + 1)" using expo_bounds [OF assms(1)] by simp
  also have "\<dots> \<le> pow2 (e + 1)" by (intro pow2_mono) (simp add: e_def)
  finally have "x < 2 ^ 53 * u" by (simp add: top)
  then have "x / u \<le> real_of_int (2 ^ 53)" using u by (simp add: field_simps)
  then have k53: "k \<le> 2 ^ 53" unfolding k_def by (rule round_even_le)
  show ?thesis
  proof (cases "k = 0")
    case True
    then show ?thesis by (simp add: r)
  next
    case False
    with k0 have kpos: "0 < k" by simp
    then have rpos: "0 < r" using u by (simp add: r)
    have "\<exists>n. r = real_of_int n * pow2 (max (expo r) (- 1022) - 52)"
    proof (cases "k = 2 ^ 53")
      case True
      then have rtop: "r = pow2 (e + 1)" by (simp add: r top)
      have "e + 1 \<le> expo r" using rpos by (intro expo_ge) (simp_all add: rtop)
      moreover have "pow2 ((e + 1) + 1) = 2 * pow2 (e + 1)" by (rule pow2_Suc)
      then have "r < pow2 ((e + 1) + 1)" using pow2_pos [of "e + 1"] rtop by linarith
      then have "expo r \<le> e + 1" using rpos by (intro expo_le)
      ultimately have "expo r = e + 1" by simp
      moreover have "- 1022 \<le> e" by (simp add: e_def)
      ultimately have m: "max (expo r) (- 1022) - 52 = (e - 52) + 1" by simp
      have "r = real_of_int (2 ^ 52) * pow2 (max (expo r) (- 1022) - 52)"
        by (simp only: m pow2_Suc) (simp add: r True u_def)
      then show ?thesis by blast
    next
      case False
      with k53 have "k < 2 ^ 53" by simp
      then have "real_of_int k < real_of_int (2 ^ 53)" by (simp only: of_int_less_iff)
      then have "r < pow2 (e + 1)" using u by (simp add: r top)
      then have "expo r \<le> e" using rpos by (intro expo_le)
      moreover have "- 1022 \<le> e" by (simp add: e_def)
      ultimately have le: "max (expo r) (- 1022) \<le> e" by simp
      define d where "d = nat (e - max (expo r) (- 1022))"
      have "e - 52 = (max (expo r) (- 1022) - 52) + int d" using le by (simp add: d_def)
      then have ueq: "u = pow2 (max (expo r) (- 1022) - 52) * 2 ^ d"
        unfolding u_def by (simp only: pow2_shift)
      have "r = real_of_int k * u" by (rule r)
      also have "\<dots> = real_of_int k * (pow2 (max (expo r) (- 1022) - 52) * 2 ^ d)"
        by (simp only: ueq [symmetric])
      also have "\<dots> = real_of_int (k * 2 ^ d) * pow2 (max (expo r) (- 1022) - 52)"
        by simp
      finally show ?thesis by blast
    qed
    then obtain n where "r = real_of_int n * pow2 (max (expo r) (- 1022) - 52)" by blast
    then have "round_pos r = Fin r" using fin by (rule round_pos_exact)
    then show ?thesis using rpos by (simp add: is_double_def round_double_def)
  qed
qed

lemma round_double_is_double:
  assumes "round_double x = Fin r"
  shows "is_double r"
proof (cases "x = 0")
  case True
  with assms show ?thesis by simp
next
  case False
  show ?thesis
  proof (cases "0 < x")
    case True
    with assms False show ?thesis by (simp add: round_double_def round_pos_is_double)
  next
    case neg: False
    with assms False have "js_neg (round_pos (- x)) = Fin r" by (simp add: round_double_def)
    then have "round_pos (- x) = Fin (- r)" by (cases "round_pos (- x)") simp_all
    moreover have "0 < - x" using False neg by simp
    ultimately have "is_double (- r)" by (intro round_pos_is_double [of "- x"])
    then have "is_double (- (- r))" by (rule is_double_minus)
    then show ?thesis by simp
  qed
qed

subsection \<open>Arithmetic on numbers\<close>

lemma isFinite_js_mul: "isFinite (js_mul a b) \<Longrightarrow> isFinite a \<and> isFinite b"
  by (cases a; cases b) (simp_all split: if_splits)

lemma js_sub_self: "isFinite a \<Longrightarrow> js_sub a a = Fin 0"
  by (cases a) (simp_all add: js_sub_def)

lemma js_mul_zero: "isFinite a \<Longrightarrow> js_mul a (Fin 0) = Fin 0"
  by (cases a) simp_all

lemma js_add_zero: "js_double a \<Longrightarrow> js_add a (Fin 0) = a"
  by (cases a) (simp_all add: is_double_def)


lemma js_mul_nonneg:
  "0 \<le> x \<Longrightarrow> 0 \<le> y \<Longrightarrow> js_le (Fin 0) (js_mul (Fin x) (Fin y))"
  by (simp add: round_double_nonneg)


lemma positive_truthy: "js_lt (Fin 0) a \<Longrightarrow> truthy a"
  by (cases a) simp_all

text \<open>
Every result of an operation is a double, and so is the day change that the loop totals.
\<close>

lemma js_double_round: "js_double (round_double x)"
  by (cases "round_double x") (simp_all add: round_double_is_double)

lemma js_double_neg: "js_double a \<Longrightarrow> js_double (js_neg a)"
  by (cases a) (simp_all add: is_double_minus)

lemma js_double_add: "js_double (js_add a b)"
  by (cases a; cases b) (simp_all add: js_double_round)

lemma js_double_mul: "js_double (js_mul a b)"
  by (cases a; cases b) (simp_all add: js_double_round)

lemma js_double_div: "js_double (js_div a b)"
  by (cases a; cases b) (simp_all add: js_double_round)

subsection \<open>Upper-casing of the symbols used in the examples\<close>

lemma toUpperCase_AAA: "toUpperCase ''AAA'' = ''AAA''"
  by code_simp

lemma toUpperCase_aaa: "toUpperCase ''aaa'' = ''AAA''"
  by code_simp


subsection \<open>Property order and the emitted holdings\<close>

lemma own_entries_single: "own_entries [e] = [e]"
  by (simp add: own_entries_def)

lemma set_own_entries: "set (own_entries kvs) = set kvs"
  by (auto simp: own_entries_def)

lemma set_emit:
  "set (emit lots) = to_holding ` {e \<in> set lots. js_lt (Fin 0) (lot_qty (snd e))}"
  by (auto simp: emit_def set_own_entries)

lemma emit_single:
  "0 < Q \<Longrightarrow>
   emit [(S, \<lparr>lot_qty = Fin Q, lot_cost = C\<rparr>)]
   = [\<lparr>h_symbol = S, h_qty = Fin Q, avgCost = js_div C (Fin Q)\<rparr>]"
  by (simp add: emit_def own_entries_single to_holding_def)

text \<open>
With distinct keys, an emitted holding comes from the accumulator of its symbol.
\<close>

lemma emitted_symbol:
  assumes "distinct (map fst lots)" and "h \<in> set (emit lots)"
  shows "\<exists>l. map_of lots (h_symbol h) = Some l \<and> js_lt (Fin 0) (lot_qty l)
           \<and> h_qty h = lot_qty l \<and> avgCost h = js_div (lot_cost l) (lot_qty l)"
proof -
  from assms(2) obtain e
    where e: "e \<in> set lots" "js_lt (Fin 0) (lot_qty (snd e))" "h = to_holding e"
    by (auto simp: set_emit)
  have "map_of lots (fst e) = Some (snd e)"
    using assms(1) e(1) by (metis map_of_is_SomeI prod.collapse)
  moreover have "h_symbol h = fst e" "h_qty h = lot_qty (snd e)"
    "avgCost h = js_div (lot_cost (snd e)) (lot_qty (snd e))"
    using e(2) by (simp_all add: e(3) to_holding_def positive_truthy)
  ultimately show ?thesis using e(2) by auto
qed

subsection \<open>Keys of the accumulator object\<close>

lemma replay_step_distinct:
  "distinct (map fst lots) \<Longrightarrow> distinct (map fst (replay_step lots t))"
  by (simp add: replay_step_def Let_def distinct_update)

lemma foldl_distinct:
  "distinct (map fst lots) \<Longrightarrow> distinct (map fst (foldl replay_step lots txs))"
  by (induction txs arbitrary: lots) (simp_all add: replay_step_distinct)

lemma final_lots_distinct: "distinct (map fst (final_lots txs))"
  by (simp add: final_lots_def replay_def foldl_distinct)

lemma replay_snoc: "replay (pre @ [t]) = replay_step (replay pre) t"
  by (simp add: replay_def)

lemma map_of_replay_step:
  "map_of (replay_step lots t) s
   = (if toUpperCase (symbol t) = s
      then Some (apply_tx (case map_of lots s of Some l \<Rightarrow> l
                            | None \<Rightarrow> \<lparr>lot_qty = Fin 0, lot_cost = Fin 0\<rparr>) t)
      else map_of lots s)"
  by (simp add: replay_step_def Let_def update_conv')

lemma foldl_replay_single:
  assumes "\<forall>t\<in>set txs. toUpperCase (symbol t) = S"
  shows "foldl replay_step [(S, l)] txs = [(S, foldl apply_tx l txs)]"
  using assms by (induction txs arbitrary: l) (simp_all add: replay_step_def)

lemma replay_single:
  assumes "txs \<noteq> []" and "\<forall>t\<in>set txs. toUpperCase (symbol t) = S"
  shows "replay txs = [(S, foldl apply_tx \<lparr>lot_qty = Fin 0, lot_cost = Fin 0\<rparr> txs)]"
proof (cases txs)
  case Nil
  with assms(1) show ?thesis by simp
next
  case (Cons t ts)
  have "replay_step [] t = [(S, apply_tx \<lparr>lot_qty = Fin 0, lot_cost = Fin 0\<rparr> t)]"
    using assms(2) Cons by (simp add: replay_step_def)
  then show ?thesis
    using foldl_replay_single [of ts S] assms(2) Cons by (simp add: replay_def)
qed

subsection \<open>Single steps of the replay\<close>

lemma apply_tx_buy_fresh:
  assumes "side t = ''BUY''" and "qty t = Fin q" and "is_double q"
  shows "apply_tx \<lparr>lot_qty = Fin 0, lot_cost = Fin 0\<rparr> t
         = (if js_lt (Fin \<bar>q\<bar>) tolerance then \<lparr>lot_qty = Fin 0, lot_cost = Fin 0\<rparr>
            else \<lparr>lot_qty = Fin q, lot_cost = js_add (Fin 0) (js_mul (Fin q) (price t))\<rparr>)"
  using assms by (simp add: apply_tx_def Let_def is_double_def)

lemma apply_tx_sell_all:
  assumes "side t \<noteq> ''BUY''" and "qty t = Fin q" and "is_double q" and "lot_qty l = Fin q"
  shows "apply_tx l t = \<lparr>lot_qty = Fin 0, lot_cost = Fin 0\<rparr>"
  using assms is_double_minus [of q]
  by (simp add: apply_tx_def Let_def is_double_def tolerance_pos)

lemma apply_tx_sell_fresh:
  assumes "side t \<noteq> ''BUY''" and "qty t = Fin q" and "is_double q"
    and "js_lt (Fin \<bar>q\<bar>) tolerance"
  shows "apply_tx \<lparr>lot_qty = Fin 0, lot_cost = Fin 0\<rparr> t = \<lparr>lot_qty = Fin 0, lot_cost = Fin 0\<rparr>"
  using assms is_double_minus [of q]
  by (simp add: apply_tx_def Let_def is_double_def)

lemma apply_tx_buy_exact:
  assumes "side t = ''BUY''" and "qty t = Fin q" and "price t = Fin p"
    and "is_double q" and "is_double (q * p)"
    and "is_double (Q + q)" and "is_double (C + q * p)"
    and "\<not> \<bar>Q + q\<bar> < num_val tolerance"
  shows "apply_tx \<lparr>lot_qty = Fin Q, lot_cost = Fin C\<rparr> t
         = \<lparr>lot_qty = Fin (Q + q), lot_cost = Fin (C + q * p)\<rparr>"
  using assms by (simp add: apply_tx_def Let_def is_double_def js_lt_tolerance)

lemma apply_tx_oversell:
  assumes "side t \<noteq> ''BUY''" and "lot_qty l = Fin Q" and "qty t = Fin q" and "is_double q"
    and "0 < Q" and "Q \<le> q"
  shows "apply_tx l t
         = (if js_lt (js_abs (round_double (Q - q))) tolerance
            then \<lparr>lot_qty = Fin 0, lot_cost = Fin 0\<rparr>
            else \<lparr>lot_qty = round_double (Q - q),
                  lot_cost = js_sub (lot_cost l) (js_mul (Fin Q) (js_div (lot_cost l) (Fin Q)))\<rparr>)"
  using assms is_double_minus [of q]
  by (simp add: apply_tx_def Let_def is_double_def min_def)

subsection \<open>The cost of a symbol that is only bought\<close>





subsection \<open>Purchases that do not round\<close>

lemma exact_buyE:
  assumes "exact_buy S t"
  obtains q p where "qty t = Fin q" "price t = Fin p" "0 < q" "is_double q"
    "is_double (q * p)" "side t = ''BUY''" "amount t = q * p"
  using assms
  by (cases "qty t"; cases "price t") (auto simp: exact_buy_def well_formed_def amount_def)

lemma foldl_apply_buys:
  assumes "\<forall>t\<in>set txs. exact_buy S t"
    and "exact_sums Q (map (\<lambda>t. num_val (qty t)) txs)"
    and "exact_sums C (map amount txs)"
    and "num_val tolerance \<le> Q"
  shows "foldl apply_tx \<lparr>lot_qty = Fin Q, lot_cost = Fin C\<rparr> txs
         = \<lparr>lot_qty = Fin (Q + (\<Sum>t\<leftarrow>txs. num_val (qty t))),
            lot_cost = Fin (C + (\<Sum>t\<leftarrow>txs. amount t))\<rparr>"
  using assms
proof (induction txs arbitrary: Q C)
  case Nil
  then show ?case by simp
next
  case (Cons t txs)
  from Cons.prems(1) have "exact_buy S t" by simp
  then obtain q p where qp: "qty t = Fin q" "price t = Fin p" "0 < q" "is_double q"
      "is_double (q * p)" "side t = ''BUY''" "amount t = q * p"
    by (rule exact_buyE)
  have sums: "is_double (Q + q)" "exact_sums (Q + q) (map (\<lambda>t. num_val (qty t)) txs)"
    "is_double (C + q * p)" "exact_sums (C + q * p) (map amount txs)"
    using Cons.prems(2,3) qp by simp_all
  have big: "num_val tolerance \<le> Q + q" using Cons.prems(4) qp(3) by simp
  then have "\<not> \<bar>Q + q\<bar> < num_val tolerance" using tolerance_num_pos by simp
  then have step: "apply_tx \<lparr>lot_qty = Fin Q, lot_cost = Fin C\<rparr> t
      = \<lparr>lot_qty = Fin (Q + q), lot_cost = Fin (C + q * p)\<rparr>"
    using qp sums by (intro apply_tx_buy_exact) simp_all
  have "foldl apply_tx \<lparr>lot_qty = Fin (Q + q), lot_cost = Fin (C + q * p)\<rparr> txs
      = \<lparr>lot_qty = Fin (Q + q + (\<Sum>t\<leftarrow>txs. num_val (qty t))),
         lot_cost = Fin (C + q * p + (\<Sum>t\<leftarrow>txs. amount t))\<rparr>"
    using Cons.prems(1) sums big by (intro Cons.IH) simp_all
  then show ?case using step qp by (simp add: add.assoc)
qed

subsection \<open>The totals of the valuation\<close>

lemma render_totals_double:
  "js_double (dayChangeValue (render_totals quotes holdings))"
proof -
  have "js_double (dayChangeValue acc)
      \<Longrightarrow> js_double (dayChangeValue (foldl (add_row quotes) acc holdings))" for acc
    by (induction holdings arbitrary: acc) (simp_all add: add_row_def Let_def js_double_add)
  then show ?thesis by (simp add: render_totals_def)
qed

subsection \<open>Sums over rearranged lists\<close>

lemma sum_list_mset_cong:
  assumes "mset xs = mset ys"
  shows "(\<Sum>t\<leftarrow>xs. f t) = (\<Sum>t\<leftarrow>ys. (f t :: real))"
proof -
  have "mset (map f xs) = mset (map f ys)" using assms by (metis mset_map)
  then show ?thesis by (metis sum_mset_sum_list)
qed

lemma sum_list_sort_key: "(\<Sum>t\<leftarrow>sort_key k xs. f t) = (\<Sum>t\<leftarrow>xs. (f t :: real))"
  by (rule sum_list_mset_cong) simp

lemma amount_sum_nonneg:
  assumes "\<forall>t\<in>set txs. 0 \<le> num_val (qty t) \<and> 0 \<le> num_val (price t)"
  shows "0 \<le> (\<Sum>t\<leftarrow>txs. amount t)"
  using assms by (intro sum_list_nonneg) (auto simp: amount_def)

subsection \<open>The cash fold on integers\<close>

lemma computeCash_integral:
  assumes "\<forall>t\<in>set txs. integral (qty t) \<and> integral (price t)
             \<and> 0 \<le> num_val (qty t) \<and> 0 \<le> num_val (price t)"
    and "\<bar>real_of_int k\<bar> + (\<Sum>t\<leftarrow>txs. amount t) \<le> 2 ^ 53"
  shows "computeCash txs (Fin (of_int k)) = Fin (of_int k + (\<Sum>t\<leftarrow>txs. signed_amount t))"
  using assms
proof (induction txs arbitrary: k)
  case Nil
  then show ?case by (simp add: computeCash_def)
next
  case (Cons t txs)
  from Cons.prems(1) obtain a b where ab: "qty t = Fin (of_int a)" "price t = Fin (of_int b)"
    by (metis integralE list.set_intros(1))
  have nonneg: "0 \<le> real_of_int a" "0 \<le> real_of_int b" using Cons.prems(1) ab by auto
  have rest: "0 \<le> (\<Sum>t\<leftarrow>txs. amount t)"
    using Cons.prems(1) by (intro amount_sum_nonneg) auto
  have amt: "amount t = real_of_int (a * b)" by (simp add: amount_def ab)
  have bound: "\<bar>real_of_int k\<bar> + real_of_int (a * b) + (\<Sum>t\<leftarrow>txs. amount t) \<le> 2 ^ 53"
    using Cons.prems(2) by (simp add: amt)
  have ab_nonneg: "0 \<le> real_of_int (a * b)" using nonneg by simp
  have prod: "round_double (real_of_int (a * b)) = Fin (real_of_int (a * b))"
    using bound rest ab_nonneg by (intro round_double_of_int) linarith
  have "\<bar>real_of_int (- (a * b))\<bar> = real_of_int (a * b)" using ab_nonneg by simp
  then have nprod: "round_double (real_of_int (- (a * b))) = Fin (real_of_int (- (a * b)))"
    using bound rest by (intro round_double_of_int) linarith
  define s :: int where "s = (if side t = ''BUY'' then - 1 else 1)"
  have sval: "real_of_int (s * (a * b)) = signed_amount t"
    by (simp add: s_def signed_amount_def amt)
  have signed: "js_mul (if side t = ''BUY'' then Fin (- 1) else Fin 1) (js_mul (qty t) (price t))
      = Fin (real_of_int (s * (a * b)))"
    using prod nprod by (simp add: ab s_def)
  have "real_of_int s = - 1 \<or> real_of_int s = 1" by (simp add: s_def)
  then have "\<bar>real_of_int k + real_of_int s * real_of_int (a * b)\<bar>
      \<le> \<bar>real_of_int k\<bar> + real_of_int (a * b)"
    using ab_nonneg by auto
  then have "\<bar>real_of_int (k + s * (a * b))\<bar> \<le> \<bar>real_of_int k\<bar> + real_of_int (a * b)"
    by (simp only: of_int_add of_int_mult)
  then have kbound: "\<bar>real_of_int (k + s * (a * b))\<bar> + (\<Sum>t\<leftarrow>txs. amount t) \<le> 2 ^ 53"
    using bound by linarith
  then have "round_double (real_of_int (k + s * (a * b))) = Fin (real_of_int (k + s * (a * b)))"
    using rest by (intro round_double_of_int) linarith
  then have step: "js_add (Fin (real_of_int k))
        (js_mul (if side t = ''BUY'' then Fin (- 1) else Fin 1) (js_mul (qty t) (price t)))
      = Fin (real_of_int (k + s * (a * b)))"
    by (simp add: signed)
  have "computeCash (t # txs) (Fin (real_of_int k))
      = computeCash txs (Fin (real_of_int (k + s * (a * b))))"
    by (simp add: computeCash_def step)
  also have "\<dots> = Fin (real_of_int (k + s * (a * b)) + (\<Sum>t\<leftarrow>txs. signed_amount t))"
    using Cons.prems(1) kbound by (intro Cons.IH) auto
  finally show ?case using sval by (simp add: add.assoc)
qed

subsection \<open>The requests of the fetch loop\<close>

lemma fetch_loop_requests:
  "filter is_Fetch (snd (fetch_loop net key symbols (out, tr)))
   = filter is_Fetch tr @ map (\<lambda>s. Fetch s key) symbols"
proof (induction symbols arbitrary: out tr)
  case Nil
  then show ?case by simp
next
  case (Cons s rest)
  show ?case
    by (cases "snd (fetchQuoteAlphaVantage net s key)")
      (simp_all add: Cons.IH fetchQuoteAlphaVantage_def Let_def)
qed

section \<open>Ledger replay\<close>

text \<open>
  C1. A purchase of 10 units at price 10 followed (not earlier in date) by a sale of 4
  units of the same symbol, at any price, yields exactly one holding, with quantity 6
  and average cost 10: the partial sale leaves the average cost of the remaining units
  unchanged.
\<close>

theorem partial_sell_keeps_average:
  assumes "d1 \<le> d2" and "toUpperCase s2 = toUpperCase s1"
  shows "fst (computeHoldings
            [\<lparr>tx_id = i1, symbol = s1, side = ''BUY'', qty = Fin 10, price = Fin 10,
              date = d1, tx_notes = n1\<rparr>,
             \<lparr>tx_id = i2, symbol = s2, side = ''SELL'', qty = Fin 4, price = p,
              date = d2, tx_notes = n2\<rparr>])
         = [\<lparr>h_symbol = toUpperCase s1, h_qty = Fin 6, avgCost = Fin 10\<rparr>]"
  using assms
  by (simp add: computeHoldings_def final_lots_def replay_def replay_step_def apply_tx_def
      emit_def to_holding_def own_entries_single js_sub_def tolerance_val Let_def)

theorem partial_sell_keeps_average_witness:
  "(1000::int) \<le> 2000 \<and> toUpperCase ''AAA'' = toUpperCase ''aaa'' \<and>
   fst (computeHoldings
          [\<lparr>tx_id = 1, symbol = ''aaa'', side = ''BUY'', qty = Fin 10, price = Fin 10,
            date = 1000, tx_notes = None\<rparr>,
           \<lparr>tx_id = 2, symbol = ''AAA'', side = ''SELL'', qty = Fin 4, price = Fin 25,
            date = 2000, tx_notes = None\<rparr>])
     = [\<lparr>h_symbol = ''AAA'', h_qty = Fin 6, avgCost = Fin 10\<rparr>]"
  using partial_sell_keeps_average [of 1000 2000 "''AAA''" "''aaa''" 1 None 2 "Fin 25" None]
  by (simp add: toUpperCase_AAA toUpperCase_aaa)

text \<open>
  C2. The call sorts the caller's array in place. After it the array holds the same
  transactions, in ascending order of date, transactions of equal date in their former
  order; it is unchanged exactly when it was in ascending order of date before the
  call. (The cash fold and the valuation only read their arguments: their models are
  functions of the arguments alone.)
\<close>

theorem computeHoldings_sorts_argument:
  "mset (snd (computeHoldings txs)) = mset txs
   \<and> sorted (map date (snd (computeHoldings txs)))
   \<and> filter (\<lambda>t. date t = d) (snd (computeHoldings txs)) = filter (\<lambda>t. date t = d) txs
   \<and> (snd (computeHoldings txs) = txs) = sorted (map date txs)"
proof -
  have "(sort_key date txs = txs) = sorted (map date txs)"
    by (metis sorted_sort_key sort_key_id_if_sorted)
  then show ?thesis
    by (simp add: computeHoldings_def sort_key_stable)
qed

text \<open>An array that is out of order comes back reordered.\<close>

theorem computeHoldings_sorts_argument_counterexample:
  "snd (computeHoldings
     [\<lparr>tx_id = 11, symbol = ''AAA'', side = ''BUY'', qty = Fin 5, price = Fin 60,
       date = 2000, tx_notes = None\<rparr>,
      \<lparr>tx_id = 12, symbol = ''AAA'', side = ''BUY'', qty = Fin 10, price = Fin 50,
       date = 1000, tx_notes = None\<rparr>])
   \<noteq> [\<lparr>tx_id = 11, symbol = ''AAA'', side = ''BUY'', qty = Fin 5, price = Fin 60,
       date = 2000, tx_notes = None\<rparr>,
      \<lparr>tx_id = 12, symbol = ''AAA'', side = ''BUY'', qty = Fin 10, price = Fin 50,
       date = 1000, tx_notes = None\<rparr>]"
  by (simp add: computeHoldings_def)

theorem computeHoldings_sorts_argument_witness:
  "snd (computeHoldings
     [\<lparr>tx_id = 11, symbol = ''AAA'', side = ''BUY'', qty = Fin 5, price = Fin 60,
       date = 1000, tx_notes = None\<rparr>,
      \<lparr>tx_id = 12, symbol = ''AAA'', side = ''BUY'', qty = Fin 10, price = Fin 50,
       date = 2000, tx_notes = None\<rparr>])
   = [\<lparr>tx_id = 11, symbol = ''AAA'', side = ''BUY'', qty = Fin 5, price = Fin 60,
       date = 1000, tx_notes = None\<rparr>,
      \<lparr>tx_id = 12, symbol = ''AAA'', side = ''BUY'', qty = Fin 10, price = Fin 50,
       date = 2000, tx_notes = None\<rparr>]"
  using computeHoldings_sorts_argument
    [of "[\<lparr>tx_id = 11, symbol = ''AAA'', side = ''BUY'', qty = Fin 5, price = Fin 60,
           date = 1000, tx_notes = None\<rparr>,
          \<lparr>tx_id = 12, symbol = ''AAA'', side = ''BUY'', qty = Fin 10, price = Fin 50,
           date = 2000, tx_notes = None\<rparr>]"]
  by simp

section \<open>Cash ledger\<close>

text \<open>
  C3. When the starting cash, the quantities and the prices are integers, the quantities
  and the prices not negative, and the absolute starting cash plus the sum of the
  amounts is at most \<open>2\<^sup>5\<^sup>3\<close>, no step of the fold rounds: every permutation of the list
  gives the same cash, the starting cash plus the sum over the transactions of quantity
  times price, negative for a purchase and positive otherwise. (Outside that range the
  cash can depend on the order, since every sum is rounded to a double.)
\<close>

theorem computeCash_order_independent:
  assumes "mset txs' = mset txs"
    and "\<forall>t\<in>set txs. integral (qty t) \<and> integral (price t)
             \<and> 0 \<le> num_val (qty t) \<and> 0 \<le> num_val (price t)"
    and "integral c"
    and "\<bar>num_val c\<bar> + (\<Sum>t\<leftarrow>txs. amount t) \<le> 2 ^ 53"
  shows "computeCash txs' c = computeCash txs c
       \<and> computeCash txs c = Fin (num_val c + (\<Sum>t\<leftarrow>txs. signed_amount t))"
proof -
  from assms(3) obtain k where c: "c = Fin (of_int k)" by (rule integralE)
  have set_eq: "set txs' = set txs" using assms(1) by (rule mset_eq_setD)
  have b: "\<bar>real_of_int k\<bar> + (\<Sum>t\<leftarrow>txs. amount t) \<le> 2 ^ 53" using assms(4) c by simp
  have b': "\<bar>real_of_int k\<bar> + (\<Sum>t\<leftarrow>txs'. amount t) \<le> 2 ^ 53"
    using b sum_list_mset_cong [OF assms(1), of amount] by simp
  have one: "computeCash txs c = Fin (of_int k + (\<Sum>t\<leftarrow>txs. signed_amount t))"
    unfolding c using assms(2) b by (rule computeCash_integral)
  have "computeCash txs' c = Fin (of_int k + (\<Sum>t\<leftarrow>txs'. signed_amount t))"
    unfolding c using assms(2) b' by (intro computeCash_integral) (simp_all add: set_eq)
  also have "\<dots> = Fin (of_int k + (\<Sum>t\<leftarrow>txs. signed_amount t))"
    using sum_list_mset_cong [OF assms(1), of signed_amount] by simp
  finally show ?thesis using one c by simp
qed

text \<open>
  Two orders of the same three transactions: selling at \<open>10\<^sup>1\<^sup>6\<close>, buying at \<open>10\<^sup>1\<^sup>6\<close>
  and selling at 1 leaves 1; when the sale at 1 comes second, the sum \<open>10\<^sup>1\<^sup>6 + 1\<close>
  rounds back to \<open>10\<^sup>1\<^sup>6\<close> and 0 is left.
\<close>

theorem computeCash_order_independent_counterexample:
  "mset [\<lparr>tx_id = 1, symbol = ''AAA'', side = ''SELL'', qty = Fin 1, price = Fin (10 ^ 16),
          date = 1000, tx_notes = None\<rparr>,
         \<lparr>tx_id = 3, symbol = ''AAA'', side = ''SELL'', qty = Fin 1, price = Fin 1,
          date = 3000, tx_notes = None\<rparr>,
         \<lparr>tx_id = 2, symbol = ''AAA'', side = ''BUY'', qty = Fin 1, price = Fin (10 ^ 16),
          date = 2000, tx_notes = None\<rparr>]
   = mset [\<lparr>tx_id = 1, symbol = ''AAA'', side = ''SELL'', qty = Fin 1, price = Fin (10 ^ 16),
          date = 1000, tx_notes = None\<rparr>,
         \<lparr>tx_id = 2, symbol = ''AAA'', side = ''BUY'', qty = Fin 1, price = Fin (10 ^ 16),
          date = 2000, tx_notes = None\<rparr>,
         \<lparr>tx_id = 3, symbol = ''AAA'', side = ''SELL'', qty = Fin 1, price = Fin 1,
          date = 3000, tx_notes = None\<rparr>]
   \<and> computeCash
        [\<lparr>tx_id = 1, symbol = ''AAA'', side = ''SELL'', qty = Fin 1, price = Fin (10 ^ 16),
          date = 1000, tx_notes = None\<rparr>,
         \<lparr>tx_id = 2, symbol = ''AAA'', side = ''BUY'', qty = Fin 1, price = Fin (10 ^ 16),
          date = 2000, tx_notes = None\<rparr>,
         \<lparr>tx_id = 3, symbol = ''AAA'', side = ''SELL'', qty = Fin 1, price = Fin 1,
          date = 3000, tx_notes = None\<rparr>] (Fin 0) = Fin 1
   \<and> computeCash
        [\<lparr>tx_id = 1, symbol = ''AAA'', side = ''SELL'', qty = Fin 1, price = Fin (10 ^ 16),
          date = 1000, tx_notes = None\<rparr>,
         \<lparr>tx_id = 3, symbol = ''AAA'', side = ''SELL'', qty = Fin 1, price = Fin 1,
          date = 3000, tx_notes = None\<rparr>,
         \<lparr>tx_id = 2, symbol = ''AAA'', side = ''BUY'', qty = Fin 1, price = Fin (10 ^ 16),
          date = 2000, tx_notes = None\<rparr>] (Fin 0) = Fin 0"
  by (simp add: computeCash_def round_eval)

theorem computeCash_order_independent_witness:
  "computeCash
     [\<lparr>tx_id = 12, symbol = ''AAA'', side = ''SELL'', qty = Fin 4, price = Fin 25,
       date = 2000, tx_notes = None\<rparr>,
      \<lparr>tx_id = 11, symbol = ''AAA'', side = ''BUY'', qty = Fin 10, price = Fin 10,
       date = 1000, tx_notes = None\<rparr>] (Fin 100000)
   = computeCash
     [\<lparr>tx_id = 11, symbol = ''AAA'', side = ''BUY'', qty = Fin 10, price = Fin 10,
       date = 1000, tx_notes = None\<rparr>,
      \<lparr>tx_id = 12, symbol = ''AAA'', side = ''SELL'', qty = Fin 4, price = Fin 25,
       date = 2000, tx_notes = None\<rparr>] (Fin 100000)
   \<and> computeCash
     [\<lparr>tx_id = 11, symbol = ''AAA'', side = ''BUY'', qty = Fin 10, price = Fin 10,
       date = 1000, tx_notes = None\<rparr>,
      \<lparr>tx_id = 12, symbol = ''AAA'', side = ''SELL'', qty = Fin 4, price = Fin 25,
       date = 2000, tx_notes = None\<rparr>] (Fin 100000) = Fin 100000"
proof -
  define b where "b = \<lparr>tx_id = 11, symbol = ''AAA'', side = ''BUY'', qty = Fin 10,
       price = Fin 10, date = 1000, tx_notes = None\<rparr>"
  define s where "s = \<lparr>tx_id = 12, symbol = ''AAA'', side = ''SELL'', qty = Fin 4,
       price = Fin 25, date = 2000, tx_notes = None\<rparr>"
  have perm: "mset [s, b] = mset [b, s]" by simp
  have ints: "\<forall>t\<in>set [b, s]. integral (qty t) \<and> integral (price t)
      \<and> 0 \<le> num_val (qty t) \<and> 0 \<le> num_val (price t)"
    by (simp add: b_def s_def)
  have start: "integral (Fin 100000)" by simp
  have bound: "\<bar>num_val (Fin 100000)\<bar> + (\<Sum>t\<leftarrow>[b, s]. amount t) \<le> 2 ^ 53"
    by (simp add: b_def s_def amount_def)
  from computeCash_order_independent [OF perm ints start bound]
  have "computeCash [s, b] (Fin 100000) = computeCash [b, s] (Fin 100000)
      \<and> computeCash [b, s] (Fin 100000) = Fin 100000"
    by (simp add: b_def s_def signed_amount_def amount_def)
  then show ?thesis by (simp only: b_def s_def)
qed

section \<open>Invariants of the holdings\<close>




text \<open>
  C5. For every quantity \<open>q > 0\<close>, every price \<open>p \<ge> 0\<close> and every selling price, a
  purchase of \<open>q\<close> units at \<open>p\<close> followed (not earlier in date) by a sale of \<open>q\<close> units of
  the same symbol leaves the accumulator of the symbol with quantity and cost exactly
  zero, and the symbol does not appear among the holdings. The quantity is a double, as
  every number of the program is.
\<close>

theorem full_liquidation:
  assumes "is_double q" and "0 < q" and "0 \<le> p" and "d1 \<le> d2"
    and "toUpperCase s2 = toUpperCase s1"
  shows "final_lots
            [\<lparr>tx_id = i1, symbol = s1, side = ''BUY'', qty = Fin q, price = Fin p,
              date = d1, tx_notes = n1\<rparr>,
             \<lparr>tx_id = i2, symbol = s2, side = ''SELL'', qty = Fin q, price = sp,
              date = d2, tx_notes = n2\<rparr>]
           = [(toUpperCase s1, \<lparr>lot_qty = Fin 0, lot_cost = Fin 0\<rparr>)]
       \<and> fst (computeHoldings
            [\<lparr>tx_id = i1, symbol = s1, side = ''BUY'', qty = Fin q, price = Fin p,
              date = d1, tx_notes = n1\<rparr>,
             \<lparr>tx_id = i2, symbol = s2, side = ''SELL'', qty = Fin q, price = sp,
              date = d2, tx_notes = n2\<rparr>]) = []"
proof -
  let ?b = "\<lparr>tx_id = i1, symbol = s1, side = ''BUY'', qty = Fin q, price = Fin p,
              date = d1, tx_notes = n1\<rparr>"
  let ?s = "\<lparr>tx_id = i2, symbol = s2, side = ''SELL'', qty = Fin q, price = sp,
              date = d2, tx_notes = n2\<rparr>"
  let ?zero = "\<lparr>lot_qty = Fin 0, lot_cost = Fin 0\<rparr>"
  have sorted: "sort_key date [?b, ?s] = [?b, ?s]" using assms(4) by simp
  have buy: "apply_tx ?zero ?b
      = (if js_lt (Fin \<bar>q\<bar>) tolerance then ?zero
         else \<lparr>lot_qty = Fin q, lot_cost = js_add (Fin 0) (js_mul (Fin q) (price ?b))\<rparr>)"
    by (intro apply_tx_buy_fresh [of _ q]) (simp_all add: assms(1))
  have sell: "apply_tx (apply_tx ?zero ?b) ?s = ?zero"
  proof (cases "js_lt (Fin \<bar>q\<bar>) tolerance")
    case True
    then have "apply_tx ?zero ?b = ?zero" using buy by simp
    moreover have "apply_tx ?zero ?s = ?zero"
      using True by (intro apply_tx_sell_fresh [of _ q]) (simp_all add: assms(1))
    ultimately show ?thesis by simp
  next
    case False
    then have "lot_qty (apply_tx ?zero ?b) = Fin q" using buy by simp
    then show ?thesis by (intro apply_tx_sell_all [of _ q]) (simp_all add: assms(1))
  qed
  have lots: "final_lots [?b, ?s] = [(toUpperCase s1, ?zero)]"
    unfolding final_lots_def sorted
    using sell assms(5) by (simp add: replay_def replay_step_def Let_def)
  moreover have "fst (computeHoldings [?b, ?s]) = []"
    by (simp add: computeHoldings_def lots emit_def own_entries_single)
  ultimately show ?thesis by simp
qed

theorem full_liquidation_witness:
  "is_double 3 \<and> (0::real) < 3 \<and> (0::real) \<le> 50 \<and> (1000::int) \<le> 2000
   \<and> toUpperCase ''AAA'' = toUpperCase ''aaa''
   \<and> final_lots
        [\<lparr>tx_id = 1, symbol = ''aaa'', side = ''BUY'', qty = Fin 3, price = Fin 50,
          date = 1000, tx_notes = None\<rparr>,
         \<lparr>tx_id = 2, symbol = ''AAA'', side = ''SELL'', qty = Fin 3, price = Fin 70,
          date = 2000, tx_notes = None\<rparr>]
       = [(''AAA'', \<lparr>lot_qty = Fin 0, lot_cost = Fin 0\<rparr>)]
   \<and> fst (computeHoldings
        [\<lparr>tx_id = 1, symbol = ''aaa'', side = ''BUY'', qty = Fin 3, price = Fin 50,
          date = 1000, tx_notes = None\<rparr>,
         \<lparr>tx_id = 2, symbol = ''AAA'', side = ''SELL'', qty = Fin 3, price = Fin 70,
          date = 2000, tx_notes = None\<rparr>]) = []"
proof -
  have dbl: "is_double 3" by (simp add: is_double_def)
  from full_liquidation [OF dbl, of 50 1000 2000 "''AAA''" "''aaa''" 1 None 2 "Fin 70" None]
  show ?thesis using dbl by (simp add: toUpperCase_AAA toUpperCase_aaa)
qed

text \<open>
  C6. For every non-empty list of well-formed purchases of a single symbol whose
  earliest purchase (the first of the array once sorted by date) has a quantity of at
  least the tolerance \<^verbatim>\<open>1e-9\<close>, and for which no step of the accumulation rounds (every
  amount and, in date order, every partial sum of the quantities and of the amounts is
  a double), exactly one holding is emitted: its quantity is the sum of the quantities
  bought and its average cost is the double nearest to the average of the prices
  weighted by quantity.
\<close>

theorem buys_weighted_average:
  assumes "txs \<noteq> []"
    and "\<forall>t\<in>set txs. exact_buy S t"
    and "\<not> js_lt (qty (hd (sort_key date txs))) tolerance"
    and "exact_sums 0 (map (\<lambda>t. num_val (qty t)) (sort_key date txs))"
    and "exact_sums 0 (map amount (sort_key date txs))"
  shows "fst (computeHoldings txs)
         = [\<lparr>h_symbol = S, h_qty = Fin (\<Sum>t\<leftarrow>txs. num_val (qty t)),
             avgCost = round_double ((\<Sum>t\<leftarrow>txs. amount t) / (\<Sum>t\<leftarrow>txs. num_val (qty t)))\<rparr>]"
proof -
  from assms(1) have "sort_key date txs \<noteq> []" by (metis length_sort length_0_conv)
  then obtain x xs where xs: "sort_key date txs = x # xs" by (cases "sort_key date txs") auto
  have all: "\<forall>t\<in>set (x # xs). exact_buy S t" using assms(2) by (metis xs set_sort)
  then have "exact_buy S x" by simp
  then obtain q p where qp: "qty x = Fin q" "price x = Fin p" "0 < q" "is_double q"
      "is_double (q * p)" "side x = ''BUY''" "amount x = q * p"
    by (rule exact_buyE)
  have first: "num_val tolerance \<le> q" using assms(3) by (simp add: xs qp js_lt_tolerance)
  have sums: "exact_sums q (map (\<lambda>t. num_val (qty t)) xs)" "exact_sums (q * p) (map amount xs)"
    using assms(4,5) by (simp_all add: xs qp)
  have "\<not> \<bar>0 + q\<bar> < num_val tolerance" using first qp(3) by simp
  then have "apply_tx \<lparr>lot_qty = Fin 0, lot_cost = Fin 0\<rparr> x
      = \<lparr>lot_qty = Fin (0 + q), lot_cost = Fin (0 + q * p)\<rparr>"
    using qp by (intro apply_tx_buy_exact) simp_all
  then have step: "apply_tx \<lparr>lot_qty = Fin 0, lot_cost = Fin 0\<rparr> x
      = \<lparr>lot_qty = Fin q, lot_cost = Fin (q * p)\<rparr>" by simp
  have rest: "foldl apply_tx \<lparr>lot_qty = Fin q, lot_cost = Fin (q * p)\<rparr> xs
      = \<lparr>lot_qty = Fin (q + (\<Sum>t\<leftarrow>xs. num_val (qty t))),
         lot_cost = Fin (q * p + (\<Sum>t\<leftarrow>xs. amount t))\<rparr>"
    using all sums first by (intro foldl_apply_buys [of _ S]) simp_all
  have syms: "\<forall>t\<in>set (x # xs). toUpperCase (symbol t) = S"
    using all by (simp add: exact_buy_def)
  have "replay (x # xs) = [(S, foldl apply_tx \<lparr>lot_qty = Fin 0, lot_cost = Fin 0\<rparr> (x # xs))]"
    using syms by (intro replay_single) simp_all
  then have "replay (x # xs)
      = [(S, \<lparr>lot_qty = Fin (\<Sum>t\<leftarrow>x # xs. num_val (qty t)),
               lot_cost = Fin (\<Sum>t\<leftarrow>x # xs. amount t)\<rparr>)]"
    by (simp add: step rest qp)
  then have lots: "final_lots txs
      = [(S, \<lparr>lot_qty = Fin (\<Sum>t\<leftarrow>txs. num_val (qty t)),
               lot_cost = Fin (\<Sum>t\<leftarrow>txs. amount t)\<rparr>)]"
    by (simp only: final_lots_def xs [symmetric] sum_list_sort_key)
  have "0 \<le> (\<Sum>t\<leftarrow>xs. num_val (qty t))"
    using all by (intro sum_list_nonneg) (auto simp: exact_buy_def well_formed_def)
  then have "0 < (\<Sum>t\<leftarrow>x # xs. num_val (qty t))" using qp by simp
  then have pos: "0 < (\<Sum>t\<leftarrow>txs. num_val (qty t))"
    by (simp only: xs [symmetric] sum_list_sort_key)
  show ?thesis using pos by (simp add: computeHoldings_def lots emit_single)
qed

text \<open>
  A single purchase of \<open>2\<^sup>-\<^sup>3\<^sup>1\<close> units, below the tolerance, is reset and emits nothing;
  purchases of \<open>10\<^sup>1\<^sup>6\<close>, 1 and 1 units give the quantity \<open>10\<^sup>1\<^sup>6\<close>, not the sum.
\<close>

theorem buys_weighted_average_counterexample:
  "well_formed \<lparr>tx_id = 1, symbol = ''AAA'', side = ''BUY'', qty = Fin (1 / 2 ^ 31),
       price = Fin 1, date = 1000, tx_notes = None\<rparr>
   \<and> fst (computeHoldings
     [\<lparr>tx_id = 1, symbol = ''AAA'', side = ''BUY'', qty = Fin (1 / 2 ^ 31), price = Fin 1,
       date = 1000, tx_notes = None\<rparr>]) = []
   \<and> fst (computeHoldings
     [\<lparr>tx_id = 1, symbol = ''AAA'', side = ''BUY'', qty = Fin (10 ^ 16), price = Fin 1,
       date = 1000, tx_notes = None\<rparr>,
      \<lparr>tx_id = 2, symbol = ''AAA'', side = ''BUY'', qty = Fin 1, price = Fin 1,
       date = 2000, tx_notes = None\<rparr>,
      \<lparr>tx_id = 3, symbol = ''AAA'', side = ''BUY'', qty = Fin 1, price = Fin 1,
       date = 3000, tx_notes = None\<rparr>])
     = [\<lparr>h_symbol = ''AAA'', h_qty = Fin (10 ^ 16), avgCost = Fin 1\<rparr>]
   \<and> (10 ^ 16 :: real) \<noteq> 10 ^ 16 + 1 + 1"
  by (simp add: well_formed_def is_double_def computeHoldings_def final_lots_def replay_def
      replay_step_def apply_tx_def emit_def to_holding_def own_entries_single js_sub_def
      tolerance_val toUpperCase_AAA round_eval)

theorem buys_weighted_average_witness:
  "fst (computeHoldings
     [\<lparr>tx_id = 11, symbol = ''AAA'', side = ''BUY'', qty = Fin 5, price = Fin 60,
       date = 2000, tx_notes = None\<rparr>,
      \<lparr>tx_id = 12, symbol = ''aaa'', side = ''BUY'', qty = Fin 10, price = Fin 50,
       date = 1000, tx_notes = None\<rparr>])
   = [\<lparr>h_symbol = ''AAA'', h_qty = Fin 15, avgCost = Fin (7505999378950827 / 2 ^ 47)\<rparr>]"
proof -
  define txs where "txs =
     [\<lparr>tx_id = 11, symbol = ''AAA'', side = ''BUY'', qty = Fin 5, price = Fin 60,
       date = 2000, tx_notes = None\<rparr>,
      \<lparr>tx_id = 12, symbol = ''aaa'', side = ''BUY'', qty = Fin 10, price = Fin 50,
       date = 1000, tx_notes = None\<rparr>]"
  have ne: "txs \<noteq> []" by (simp add: txs_def)
  have buys: "\<forall>t\<in>set txs. exact_buy ''AAA'' t"
    by (simp add: txs_def exact_buy_def well_formed_def amount_def is_double_def
        toUpperCase_AAA toUpperCase_aaa)
  have first: "\<not> js_lt (qty (hd (sort_key date txs))) tolerance"
    by (simp add: txs_def tolerance_val)
  have qsums: "exact_sums 0 (map (\<lambda>t. num_val (qty t)) (sort_key date txs))"
    by (simp add: txs_def is_double_def)
  have csums: "exact_sums 0 (map amount (sort_key date txs))"
    by (simp add: txs_def amount_def is_double_def)
  have avg: "round_double (160 / 3) = Fin (7505999378950827 / 2 ^ 47)"
    by (simp add: round_eval)
  from buys_weighted_average [OF ne buys first qsums csums] show ?thesis
    by (simp add: txs_def amount_def avg)
qed

section \<open>Valuation\<close>

text \<open>
  C7. For a holding whose symbol has no entry in the quotes and whose cost basis,
  quantity times average cost, is finite, the last price and the previous close are
  both the holding's average cost, so the holding adds exactly 0 to the day change
  (which leaves the running total, a double like every number, as it was) and its
  unrealized profit is exactly 0.
\<close>

theorem unpriced_holding_is_flat:
  assumes "quotes (h_symbol h) = None"
    and "isFinite (js_mul (h_qty h) (avgCost h))"
  shows "r_last (render_row quotes h) = avgCost h
       \<and> r_prev (render_row quotes h) = avgCost h
       \<and> r_pl (render_row quotes h) = Fin 0
       \<and> js_mul (h_qty h) (js_sub (r_last (render_row quotes h)) (r_prev (render_row quotes h)))
           = Fin 0
       \<and> dayChangeValue (add_row quotes acc h) = js_add (dayChangeValue acc) (Fin 0)
       \<and> (js_double (dayChangeValue acc)
            \<longrightarrow> dayChangeValue (add_row quotes acc h) = dayChangeValue acc)"
proof -
  from isFinite_js_mul [OF assms(2)] have fin: "isFinite (h_qty h)" "isFinite (avgCost h)"
    by simp_all
  have last: "r_last (render_row quotes h) = avgCost h"
    and prev: "r_prev (render_row quotes h) = avgCost h"
    using assms(1) by (simp_all add: render_row_def Let_def)
  have pl: "r_pl (render_row quotes h) = Fin 0"
    using assms(1) js_sub_self [OF assms(2)] by (simp add: render_row_def Let_def)
  have day: "js_mul (h_qty h) (js_sub (r_last (render_row quotes h)) (r_prev (render_row quotes h)))
      = Fin 0"
    by (simp add: last prev js_sub_self [OF fin(2)] js_mul_zero [OF fin(1)])
  have total: "dayChangeValue (add_row quotes acc h) = js_add (dayChangeValue acc) (Fin 0)"
    by (simp add: add_row_def Let_def day)
  have "dayChangeValue (add_row quotes acc h) = dayChangeValue acc"
    if "js_double (dayChangeValue acc)"
    by (simp add: total js_add_zero [OF that])
  with last prev pl day total show ?thesis by simp
qed

theorem unpriced_holding_is_flat_witness:
  "r_last (render_row Map.empty \<lparr>h_symbol = ''AAA'', h_qty = Fin 6, avgCost = Fin 10\<rparr>) = Fin 10
   \<and> r_prev (render_row Map.empty \<lparr>h_symbol = ''AAA'', h_qty = Fin 6, avgCost = Fin 10\<rparr>) = Fin 10
   \<and> r_pl (render_row Map.empty \<lparr>h_symbol = ''AAA'', h_qty = Fin 6, avgCost = Fin 10\<rparr>) = Fin 0
   \<and> dayChangeValue (add_row Map.empty
        \<lparr>totalValue = Fin 7, totalCost = Fin 5, dayChangeValue = Fin 3\<rparr>
        \<lparr>h_symbol = ''AAA'', h_qty = Fin 6, avgCost = Fin 10\<rparr>) = Fin 3"
proof -
  have fin: "isFinite (js_mul (h_qty \<lparr>h_symbol = ''AAA'', h_qty = Fin 6, avgCost = Fin 10\<rparr>)
      (avgCost \<lparr>h_symbol = ''AAA'', h_qty = Fin 6, avgCost = Fin 10\<rparr>))" by simp
  have acc: "js_double (dayChangeValue
      \<lparr>totalValue = Fin 7, totalCost = Fin 5, dayChangeValue = Fin 3\<rparr>)"
    by (simp add: is_double_def)
  from unpriced_holding_is_flat [of Map.empty, OF _ fin,
      of "\<lparr>totalValue = Fin 7, totalCost = Fin 5, dayChangeValue = Fin 3\<rparr>"] acc
  show ?thesis by simp
qed

section \<open>Quote fetcher\<close>

text \<open>
  C8. When the key is empty, \<^verbatim>\<open>render\<close> does not call the fetcher: its quotes are
  empty and nothing is requested. The fetcher itself does not look at the key: with the
  provider \<^verbatim>\<open>'alphavantage'\<close> it issues one request per symbol, in order, each
  carrying the empty key; with another provider it returns the empty mapping and
  requests nothing.
\<close>

theorem missing_key_guarded_by_caller:
  assumes "apiKey st = []"
  shows "render_quotes st net symbols = (Map.empty, [])
       \<and> (if provider st = ''alphavantage''
          then filter is_Fetch (snd (fetchQuotes st net symbols))
               = map (\<lambda>s. Fetch s []) symbols
          else fetchQuotes st net symbols = (Map.empty, []))"
  using assms by (simp add: render_quotes_def fetchQuotes_def fetch_loop_requests)

text \<open>With an empty key the fetcher still sends a request for the symbol.\<close>

theorem missing_key_guarded_by_caller_counterexample:
  "apiKey \<lparr>provider = ''alphavantage'', apiKey = [], refreshSec = 60,
      startingCash = Fin 100000\<rparr> = []
   \<and> snd (fetchQuotes
        \<lparr>provider = ''alphavantage'', apiKey = [], refreshSec = 60,
          startingCash = Fin 100000\<rparr>
        keyed_provider [''AAA''])
     = [Fetch ''AAA'' [], Warn ''AAA'']"
  by (simp add: fetchQuotes_def fetchQuoteAlphaVantage_def keyed_provider_def)

theorem missing_key_guarded_by_caller_witness:
  "apiKey \<lparr>provider = ''alphavantage'', apiKey = [], refreshSec = 60,
      startingCash = Fin 100000\<rparr> = []
   \<and> render_quotes
        \<lparr>provider = ''alphavantage'', apiKey = [], refreshSec = 60,
          startingCash = Fin 100000\<rparr>
        keyed_provider [''AAA'', ''BBB''] = (Map.empty, [])
   \<and> filter is_Fetch (snd (fetchQuotes
        \<lparr>provider = ''alphavantage'', apiKey = [], refreshSec = 60,
          startingCash = Fin 100000\<rparr>
        keyed_provider [''AAA'', ''BBB'']))
     = [Fetch ''AAA'' [], Fetch ''BBB'' []]"
  using missing_key_guarded_by_caller
    [of "\<lparr>provider = ''alphavantage'', apiKey = [], refreshSec = 60,
          startingCash = Fin 100000\<rparr>"
      keyed_provider "[''AAA'', ''BBB'']"]
  by simp

section \<open>Reported percentage\<close>

text \<open>
  C9. For every holding, with the last price taken from the quotes or else the average
  cost, the reported percentage is the unrealized profit (quantity times last price,
  minus quantity times average cost) divided by quantity times average cost, times
  100, each operation in double arithmetic, when that number is finite, and 0 when it
  is not; it is 0 in particular when the denominator is 0, and it is never \<^verbatim>\<open>NaN\<close> or
  an infinity.
\<close>

theorem plPct_reported:
  "r_reported (render_row quotes h)
     = (let last = (case quotes (h_symbol h) of Some qu \<Rightarrow> q_price qu | None \<Rightarrow> avgCost h);
            cost = js_mul (h_qty h) (avgCost h);
            pl = js_sub (js_mul (h_qty h) last) cost;
            pct = js_mul (js_div pl cost) (Fin 100)
        in if isFinite pct then pct else Fin 0)
   \<and> (js_mul (h_qty h) (avgCost h) = Fin 0 \<longrightarrow> r_reported (render_row quotes h) = Fin 0)
   \<and> isFinite (r_reported (render_row quotes h))"
proof -
  have zero: "\<not> isFinite (js_mul (js_div a (Fin 0)) (Fin 100))" for a
    by (cases a) simp_all
  show ?thesis
    by (simp add: render_row_def Let_def zero)
qed

text \<open>
  A holding 20 percent up reports 20, a holding with cost basis 0 reports 0, and a
  holding 20 percent down reports -20.
\<close>

theorem plPct_reported_witness:
  "r_reported (render_row [''AAA'' \<mapsto> \<lparr>q_price = Fin 12, prevClose = Some (Fin 11)\<rparr>]
        \<lparr>h_symbol = ''AAA'', h_qty = Fin 6, avgCost = Fin 10\<rparr>) = Fin 20
   \<and> r_reported (render_row [''GIFT'' \<mapsto> \<lparr>q_price = Fin 3, prevClose = None\<rparr>]
        \<lparr>h_symbol = ''GIFT'', h_qty = Fin 5, avgCost = Fin 0\<rparr>) = Fin 0
   \<and> r_reported (render_row [''AAA'' \<mapsto> \<lparr>q_price = Fin 8, prevClose = None\<rparr>]
        \<lparr>h_symbol = ''AAA'', h_qty = Fin 6, avgCost = Fin 10\<rparr>) = Fin (- 20)"
proof -
  have up: "r_reported (render_row [''AAA'' \<mapsto> \<lparr>q_price = Fin 12, prevClose = Some (Fin 11)\<rparr>]
        \<lparr>h_symbol = ''AAA'', h_qty = Fin 6, avgCost = Fin 10\<rparr>) = Fin 20"
    by (subst plPct_reported [THEN conjunct1]) (simp add: js_sub_def round_eval)
  have gift: "r_reported (render_row [''GIFT'' \<mapsto> \<lparr>q_price = Fin 3, prevClose = None\<rparr>]
        \<lparr>h_symbol = ''GIFT'', h_qty = Fin 5, avgCost = Fin 0\<rparr>) = Fin 0"
    by (subst plPct_reported [THEN conjunct1]) (simp add: js_sub_def round_eval)
  have down: "r_reported (render_row [''AAA'' \<mapsto> \<lparr>q_price = Fin 8, prevClose = None\<rparr>]
        \<lparr>h_symbol = ''AAA'', h_qty = Fin 6, avgCost = Fin 10\<rparr>) = Fin (- 20)"
    by (subst plPct_reported [THEN conjunct1]) (simp add: js_sub_def round_eval)
  from up gift down show ?thesis by (intro conjI)
qed

section \<open>Selling at least the quantity held\<close>

text \<open>
  C10. Take a sale, in the sorted array, of at least the positive quantity held before
  it. The cost removed is the quantity held times the quotient of the cost by the
  quantity held, both rounded: the whole cost up to rounding. The quantity of the
  symbol becomes the rounded difference of the quantity held and the quantity sold,
  which is not positive; if it is within the tolerance of zero, quantity and cost
  become exactly 0, and otherwise the cost becomes the cost minus the cost removed,
  which is exactly 0 when the product gives the cost back exactly. If the quantity of
  the symbol is not positive after any of the later transactions, the symbol is not
  among the emitted holdings.
\<close>

theorem oversell_clears_cost:
  assumes "sort_key date txs = pre @ t # post"
    and "side t = ''SELL''"
    and "map_of (replay pre) (toUpperCase (symbol t)) = Some l"
    and "lot_qty l = Fin Q" and "qty t = Fin q" and "is_double q"
    and "0 < Q" and "Q \<le> q"
  shows "js_min (lot_qty l) (qty t) = lot_qty l
       \<and> map_of (replay (pre @ [t])) (toUpperCase (symbol t))
           = Some (if js_lt (js_abs (round_double (Q - q))) tolerance
                   then \<lparr>lot_qty = Fin 0, lot_cost = Fin 0\<rparr>
                   else \<lparr>lot_qty = round_double (Q - q),
                         lot_cost = js_sub (lot_cost l)
                                      (js_mul (Fin Q) (js_div (lot_cost l) (Fin Q)))\<rparr>)
       \<and> js_le (round_double (Q - q)) (Fin 0)
       \<and> (isFinite (lot_cost l) \<and> js_mul (Fin Q) (js_div (lot_cost l) (Fin Q)) = lot_cost l
            \<longrightarrow> js_sub (lot_cost l) (js_mul (Fin Q) (js_div (lot_cost l) (Fin Q))) = Fin 0)
       \<and> ((\<forall>n\<le>length post. \<forall>l'.
              map_of (replay (pre @ t # take n post)) (toUpperCase (symbol t)) = Some l'
              \<longrightarrow> \<not> js_lt (Fin 0) (lot_qty l'))
            \<longrightarrow> toUpperCase (symbol t) \<notin> h_symbol ` set (fst (computeHoldings txs)))"
proof -
  have sell: "side t \<noteq> ''BUY''" using assms(2) by simp
  have least: "js_min (lot_qty l) (qty t) = lot_qty l"
    using assms(4,5,8) by (simp add: min_def)
  have after: "map_of (replay (pre @ [t])) (toUpperCase (symbol t))
      = Some (if js_lt (js_abs (round_double (Q - q))) tolerance
              then \<lparr>lot_qty = Fin 0, lot_cost = Fin 0\<rparr>
              else \<lparr>lot_qty = round_double (Q - q),
                    lot_cost = js_sub (lot_cost l)
                                 (js_mul (Fin Q) (js_div (lot_cost l) (Fin Q)))\<rparr>)"
    using apply_tx_oversell [OF sell assms(4,5,6,7,8)]
    by (simp add: replay_snoc map_of_replay_step assms(3))
  have nonpos: "js_le (round_double (Q - q)) (Fin 0)"
    using assms(8) by (intro round_double_nonpos) simp
  have exact: "js_sub (lot_cost l) (js_mul (Fin Q) (js_div (lot_cost l) (Fin Q))) = Fin 0"
    if "isFinite (lot_cost l) \<and> js_mul (Fin Q) (js_div (lot_cost l) (Fin Q)) = lot_cost l"
    using that js_sub_self [of "lot_cost l"] by simp
  have absent: "toUpperCase (symbol t) \<notin> h_symbol ` set (fst (computeHoldings txs))"
    if later: "\<forall>n\<le>length post. \<forall>l'.
        map_of (replay (pre @ t # take n post)) (toUpperCase (symbol t)) = Some l'
        \<longrightarrow> \<not> js_lt (Fin 0) (lot_qty l')"
  proof
    assume "toUpperCase (symbol t) \<in> h_symbol ` set (fst (computeHoldings txs))"
    then obtain h
      where h: "h \<in> set (emit (final_lots txs))" "h_symbol h = toUpperCase (symbol t)"
      by (auto simp: computeHoldings_def)
    from emitted_symbol [OF final_lots_distinct h(1)] h(2)
    obtain l' where l': "map_of (final_lots txs) (toUpperCase (symbol t)) = Some l'"
        "js_lt (Fin 0) (lot_qty l')"
      by auto
    have "final_lots txs = replay (pre @ t # take (length post) post)"
      by (simp add: final_lots_def assms(1))
    with later l'(1) have "\<not> js_lt (Fin 0) (lot_qty l')" by (metis order_refl)
    with l'(2) show False by simp
  qed
  from least after nonpos exact absent show ?thesis by blast
qed

text \<open>
  After purchases of 1 unit at 29 and 6 units at 0, a sale of 8 units leaves the cost
  \<open>-2\<^sup>-\<^sup>4\<^sup>8\<close>, not 0; and a sale that exceeds the quantity held by \<open>2\<^sup>-\<^sup>3\<^sup>1\<close> leaves the
  quantity at 0, not at the difference.
\<close>

theorem oversell_clears_cost_counterexample:
  "map_of (final_lots
        [\<lparr>tx_id = 1, symbol = ''AAA'', side = ''BUY'', qty = Fin 1, price = Fin 29,
          date = 1000, tx_notes = None\<rparr>,
         \<lparr>tx_id = 2, symbol = ''AAA'', side = ''BUY'', qty = Fin 6, price = Fin 0,
          date = 2000, tx_notes = None\<rparr>,
         \<lparr>tx_id = 3, symbol = ''AAA'', side = ''SELL'', qty = Fin 8, price = Fin 1,
          date = 3000, tx_notes = None\<rparr>]) ''AAA''
       = Some \<lparr>lot_qty = Fin (- 1), lot_cost = Fin (- (1 / 2 ^ 48))\<rparr>
   \<and> map_of (final_lots
        [\<lparr>tx_id = 1, symbol = ''AAA'', side = ''BUY'', qty = Fin 1, price = Fin 29,
          date = 1000, tx_notes = None\<rparr>,
         \<lparr>tx_id = 2, symbol = ''AAA'', side = ''BUY'', qty = Fin 6, price = Fin 0,
          date = 2000, tx_notes = None\<rparr>]) ''AAA''
       = Some \<lparr>lot_qty = Fin 7, lot_cost = Fin 29\<rparr>
   \<and> Fin (- (1 / 2 ^ 48)) \<noteq> Fin 0
   \<and> map_of (final_lots
        [\<lparr>tx_id = 1, symbol = ''AAA'', side = ''BUY'', qty = Fin 1, price = Fin 10,
          date = 1000, tx_notes = None\<rparr>,
         \<lparr>tx_id = 2, symbol = ''AAA'', side = ''SELL'', qty = Fin (1 + 1 / 2 ^ 31),
          price = Fin 12, date = 2000, tx_notes = None\<rparr>]) ''AAA''
       = Some \<lparr>lot_qty = Fin 0, lot_cost = Fin 0\<rparr>
   \<and> (1 :: real) - (1 + 1 / 2 ^ 31) \<noteq> 0"
  by (simp add: final_lots_def replay_def replay_step_def apply_tx_def js_sub_def
      tolerance_val toUpperCase_AAA round_eval)

theorem oversell_clears_cost_witness:
  "map_of (replay
        [\<lparr>tx_id = 11, symbol = ''AAA'', side = ''BUY'', qty = Fin 5, price = Fin 10,
          date = 1000, tx_notes = None\<rparr>,
         \<lparr>tx_id = 12, symbol = ''AAA'', side = ''SELL'', qty = Fin 7, price = Fin 12,
          date = 2000, tx_notes = None\<rparr>]) ''AAA''
       = Some \<lparr>lot_qty = Fin (- 2), lot_cost = Fin 0\<rparr>
   \<and> ''AAA'' \<notin> h_symbol ` set (fst (computeHoldings
        [\<lparr>tx_id = 11, symbol = ''AAA'', side = ''BUY'', qty = Fin 5, price = Fin 10,
          date = 1000, tx_notes = None\<rparr>,
         \<lparr>tx_id = 12, symbol = ''AAA'', side = ''SELL'', qty = Fin 7, price = Fin 12,
          date = 2000, tx_notes = None\<rparr>]))"
proof -
  define b where "b = \<lparr>tx_id = 11, symbol = ''AAA'', side = ''BUY'', qty = Fin 5,
          price = Fin 10, date = 1000, tx_notes = None\<rparr>"
  define s where "s = \<lparr>tx_id = 12, symbol = ''AAA'', side = ''SELL'', qty = Fin 7,
          price = Fin 12, date = 2000, tx_notes = None\<rparr>"
  define l where "l = \<lparr>lot_qty = Fin 5, lot_cost = Fin 50\<rparr>"
  have sorted: "sort_key date [b, s] = [b] @ s # []" by (simp add: b_def s_def)
  have sell: "side s = ''SELL''" by (simp add: s_def)
  have upper: "toUpperCase (symbol s) = ''AAA''" by (simp add: s_def toUpperCase_AAA)
  have before: "map_of (replay [b]) (toUpperCase (symbol s)) = Some l"
    unfolding upper
    by (simp add: b_def l_def replay_def replay_step_def apply_tx_def toUpperCase_AAA
        tolerance_val)
  have held: "lot_qty l = Fin 5" and sold: "qty s = Fin 7" by (simp_all add: l_def s_def)
  have dbl: "is_double 7" by (simp add: is_double_def)
  note claim = oversell_clears_cost [OF sorted sell before held sold dbl]
  have cost: "lot_cost l = Fin 50" by (simp add: l_def)
  have after: "map_of (replay [b, s]) ''AAA'' = Some \<lparr>lot_qty = Fin (- 2), lot_cost = Fin 0\<rparr>"
    using claim by (simp add: upper cost js_sub_def tolerance_val)
  have later: "\<forall>n\<le>length ([]::transaction list). \<forall>l'.
      map_of (replay ([b] @ s # take n [])) (toUpperCase (symbol s)) = Some l'
      \<longrightarrow> \<not> js_lt (Fin 0) (lot_qty l')"
    using after by (simp add: upper)
  have "''AAA'' \<notin> h_symbol ` set (fst (computeHoldings [b, s]))"
    using claim later unfolding upper by simp
  with after show ?thesis by (simp add: b_def s_def)
qed

end
